theory Spec2Isabelle
  imports Main "HOL-Library.Word"
begin

section \<open>Package number: the 64-bit numeric value\<close>

text \<open>
  \<^verbatim>\<open>type Kind int8\<close> with the two constants \<^verbatim>\<open>Int64Kind\<close> and \<^verbatim>\<open>Float64Kind\<close>, and
  \<^verbatim>\<open>type Number uint64\<close>. A \<^verbatim>\<open>float64\<close> is represented by its IEEE-754 bit pattern:
  Go's \<^verbatim>\<open>math.Float64bits\<close> and \<^verbatim>\<open>math.Float64frombits\<close> reinterpret the eight bytes,
  so they are the selector and the constructor of a one-constructor datatype. An
  \<^verbatim>\<open>int64\<close> argument or result of the package's functions is the mathematical integer
  it denotes, in the range \<open>is_int64\<close>; the conversions \<^verbatim>\<open>Number(n)\<close> and \<^verbatim>\<open>int64(n)\<close>
  between the two 64-bit integer types keep the bits, which is \<open>word_of_int\<close> and
  \<open>sint\<close>.
\<close>

datatype Kind = Int64Kind | Float64Kind

type_synonym Number = "64 word"

datatype float64 = Float64frombits (Float64bits: "64 word")

definition is_int64 :: "int \<Rightarrow> bool" where
  "is_int64 i = (- (2 ^ 63) \<le> i \<and> i < 2 ^ 63)"

text \<open>
  Go's conversion \<^verbatim>\<open>float64(x)\<close> of an integer \<open>x\<close> rounds to the nearest
  representable value, ties to even. \<open>bitlen\<close> is the number of binary digits of the
  magnitude, \<open>float64_of_int\<close> assembles sign, biased exponent and 52-bit fraction.
  Every integer of magnitude below \<open>2 ^ 64\<close> is in the normal range.
\<close>

fun bitlen :: "nat \<Rightarrow> nat" where
  "bitlen n = (if n = 0 then 0 else Suc (bitlen (n div 2)))"

declare bitlen.simps [simp del]

definition float64_of_int :: "int \<Rightarrow> float64" where
  "float64_of_int x =
     (let m = nat \<bar>x\<bar>;
          sgn_bit = (if x < 0 then 2 ^ 63 else 0 :: nat)
      in if m = 0 then Float64frombits 0
         else
           let e = bitlen m - 1 in
           if e \<le> 52
           then Float64frombits (of_nat (sgn_bit + (e + 1023) * 2 ^ 52 + (m * 2 ^ (52 - e) - 2 ^ 52)))
           else
             let s = e - 52;
                 q = m div 2 ^ s;
                 r = m mod 2 ^ s;
                 half = 2 ^ (s - 1);
                 q' = (if r > half \<or> (r = half \<and> odd q) then q + 1 else q)
             in if q' = 2 ^ 53
                then Float64frombits (of_nat (sgn_bit + (e + 1 + 1023) * 2 ^ 52))
                else Float64frombits (of_nat (sgn_bit + (e + 1023) * 2 ^ 52 + (q' - 2 ^ 52))))"

text \<open>
  \<^verbatim>\<open>func (n Number) CoerceToFloat64(k Kind) float64\<close>: for \<^verbatim>\<open>Int64Kind\<close> the body is
  \<^verbatim>\<open>float64(n)\<close> with \<open>n\<close> of the unsigned type \<^verbatim>\<open>Number\<close>, so the value converted is
  \<open>uint n\<close>.
\<close>

definition CoerceToFloat64 :: "Number \<Rightarrow> Kind \<Rightarrow> float64" where
  "CoerceToFloat64 n k =
     (if k = Int64Kind then float64_of_int (uint n) else Float64frombits n)"

definition ToFloat64 :: "Number \<Rightarrow> float64" where
  "ToFloat64 n = Float64frombits n"

definition ToInt64 :: "Number \<Rightarrow> int" where
  "ToInt64 n = sint n"

definition FromFloat64 :: "float64 \<Rightarrow> Number" where
  "FromFloat64 f = Float64bits f"

definition FromInt64 :: "int \<Rightarrow> Number" where
  "FromInt64 i = word_of_int i"

section \<open>Package viewstate: data model\<close>

text \<open>
  The attribute set \<^verbatim>\<open>attribute.Set\<close> is an opaque comparable key, the type variable
  \<open>'k\<close>; the aggregation state \<^verbatim>\<open>Storage\<close> is \<open>'s\<close>, the measured number type
  \<^verbatim>\<open>N\<close> is \<open>'n\<close>, \<^verbatim>\<open>aggregator.ExemplarBits\<close> is \<open>'x\<close>. A \<^verbatim>\<open>time.Time\<close> is an
  integer timestamp.
\<close>

datatype Temporality = CumulativeTemporality | DeltaTemporality

type_synonym Time = int

record Sequence =
  Start :: Time
  Last :: Time
  Now :: Time

text \<open>
  An output point. \<^verbatim>\<open>point.Aggregation\<close> is the interface value that wraps a pointer to
  a \<^verbatim>\<open>Storage\<close>; \<^verbatim>\<open>methods.ToAggregation\<close> and \<^verbatim>\<open>methods.ToStorage\<close> convert between
  the pointer and the interface value, so the field holds the storage itself and both
  conversions are the identity.
\<close>

record ('k, 's) Point =
  Attributes :: 'k
  Aggregation :: 's
  Temporality :: Temporality
  PtStart :: Time
  PtEnd :: Time

text \<open>
  A Go slice, as far as the code observes it: its elements (\<^verbatim>\<open>len\<close> is their number)
  and its capacity. \<open>slice3 s lo hi mx\<close> is the full slice expression
  \<^verbatim>\<open>s[lo : hi : mx]\<close>.
\<close>

record 'a slice =
  elems :: "'a list"
  cap :: nat

definition slice3 :: "'a slice \<Rightarrow> nat \<Rightarrow> nat \<Rightarrow> nat \<Rightarrow> 'a slice" where
  "slice3 s lo hi mx = \<lparr>elems = take (hi - lo) (drop lo (elems s)), cap = mx - lo\<rparr>"

record ('k, 's) Instrument =
  Points :: "('k, 's) Point slice"

text \<open>
  \<^verbatim>\<open>storageHolder[Storage, Auxiliary]\<close>: the state of one timeseries and the auxiliary
  field, an \<^verbatim>\<open>int64\<close> reference count for synchronous instruments (a 64-bit word,
  \<^verbatim>\<open>atomic.AddInt64\<close> wraps around) and \<^verbatim>\<open>notUsed\<close> for asynchronous ones.
\<close>

record ('s, 'aux) storageHolder =
  storage :: 's
  auxiliary :: 'aux

datatype notUsed = notUsed

text \<open>
  Modelled from the spec: the aggregation algebra \<^verbatim>\<open>aggregator.Methods[N, Storage]\<close> is
  declared outside the sources and is a parameter of every function below. Its
  operations take pointers; each field returns what the call leaves behind the pointers
  it writes: \<open>Update st number ex\<close> the updated storage, \<open>Move src dst\<close> the pair of the
  reset source and the destination, \<open>Merge src dst\<close> the destination, \<open>SubtractSwap a b\<close>
  both operands (the first holds the difference \<open>b - a\<close>), \<open>Copy src dst\<close> the
  destination.
\<close>

record ('n, 's, 'x) Methods =
  Update :: "'s \<Rightarrow> 'n \<Rightarrow> 'x \<Rightarrow> 's"
  Move :: "'s \<Rightarrow> 's \<Rightarrow> 's \<times> 's"
  Merge :: "'s \<Rightarrow> 's \<Rightarrow> 's"
  SubtractSwap :: "'s \<Rightarrow> 's \<Rightarrow> 's \<times> 's"
  Copy :: "'s \<Rightarrow> 's \<Rightarrow> 's"
  HasChange :: "'s \<Rightarrow> bool"

text \<open>
  The values the code takes from outside the sources: the overflow key
  \<^verbatim>\<open>pipeline.OverflowAttributeSet\<close>, the zero value of \<^verbatim>\<open>Storage\<close> (the content of a
  \<^verbatim>\<open>&storageHolder{}\<close>), the storage that the instrument base initialises for an output
  point, the capacity the runtime gives a full slice that grows to a given length, and
  the zero value \<^verbatim>\<open>aggregator.ExemplarBits{}\<close>.
\<close>

record ('k, 's, 'x) externals =
  OverflowAttributeSet :: 'k
  zeroStorage :: 's
  newStorage :: 's
  growslice :: "nat \<Rightarrow> nat"
  noExemplarBits :: 'x

text \<open>
  Modelled from the spec: \<^verbatim>\<open>appendInstrument\<close> and \<^verbatim>\<open>appendPoint\<close> belong to the
  instrument base, which is not part of the sources. \<^verbatim>\<open>appendInstrument\<close> builds the output
  instrument record of this collection, with no points. \<^verbatim>\<open>appendPoint\<close> appends one point
  to the growable point sequence: with \<open>reset\<close> the storage's contents are moved out into the
  point (\<open>Move\<close>), leaving the storage reset; without it the point is a copy (\<open>Copy\<close>) and
  the storage is left as it is. The destination of the move or copy is a storage
  initialised for the point; whether its memory is new or taken over from a point rolled
  back earlier is not represented, as \<open>Move\<close> and \<open>Copy\<close> overwrite their destination.
\<close>

definition append_slice :: "(nat \<Rightarrow> nat) \<Rightarrow> 'a slice \<Rightarrow> 'a \<Rightarrow> 'a slice" where
  "append_slice grow s x =
     \<lparr>elems = elems s @ [x],
      cap = (if length (elems s) < cap s then cap s else grow (Suc (length (elems s))))\<rparr>"

definition appendInstrument :: "('k, 's) Instrument" where
  "appendInstrument = \<lparr>Points = \<lparr>elems = [], cap = 0\<rparr>\<rparr>"

definition appendPoint ::
  "('n, 's, 'x) Methods \<Rightarrow> ('k, 's, 'x) externals \<Rightarrow> ('k, 's) Instrument \<Rightarrow> 'k \<Rightarrow> 's
    \<Rightarrow> Temporality \<Rightarrow> Time \<Rightarrow> Time \<Rightarrow> bool \<Rightarrow> 's \<times> ('k, 's) Instrument" where
  "appendPoint m ext inst attrs st tempo start end' reset =
     (let out = newStorage ext;
          (st', out') = (if reset then Move m st out else (st, Copy m st out));
          point = \<lparr>Attributes = attrs, Aggregation = out', Temporality = tempo,
                   PtStart = start, PtEnd = end'\<rparr>
      in (st', inst\<lparr>Points := append_slice (growslice ext) (Points inst) point\<rparr>))"

section \<open>Accumulators\<close>

text \<open>
  A synchronous accumulator holds a pointer to its storage holder, which the
  instrument's map and the other accumulators of the same attribute set share. The
  holders of a synchronous instrument therefore live in a store, from addresses to
  holders, and a pointer is an address. The locks (\<^verbatim>\<open>syncLock\<close>, \<^verbatim>\<open>asyncLock\<close>,
  \<^verbatim>\<open>instLock\<close>) make each method one step on the state.
\<close>

type_synonym addr = nat

type_synonym 's syncStore = "addr \<Rightarrow> ('s, 64 word) storageHolder"

type_synonym 's asyncStore = "addr \<Rightarrow> ('s, notUsed) storageHolder"

record 's syncAccumulator =
  current :: 's
  snapshot :: 's
  holder :: addr

definition syncAccumulator_Update ::
  "('n, 's, 'x) Methods \<Rightarrow> 's syncAccumulator \<Rightarrow> 'n \<Rightarrow> 'x \<Rightarrow> 's syncAccumulator" where
  "syncAccumulator_Update m a number ex = a\<lparr>current := Update m (current a) number ex\<rparr>"

definition syncAccumulator_SnapshotAndProcess ::
  "('n, 's, 'x) Methods \<Rightarrow> 's syncAccumulator \<Rightarrow> bool \<Rightarrow> 's syncStore
    \<Rightarrow> 's syncAccumulator \<times> 's syncStore" where
  "syncAccumulator_SnapshotAndProcess m a release h =
     (let (cur, snap) = Move m (current a) (snapshot a);
          a' = a\<lparr>current := cur, snapshot := snap\<rparr>;
          hold = h (holder a);
          hold' = hold\<lparr>storage := Merge m snap (storage hold)\<rparr>;
          hold'' = (if release then hold'\<lparr>auxiliary := auxiliary hold' + (- 1)\<rparr> else hold')
      in (a', h(holder a := hold'')))"

record 'n asyncAccumulator =
  current_async :: 'n
  holder_async :: addr

definition asyncAccumulator_Update ::
  "'n asyncAccumulator \<Rightarrow> 'n \<Rightarrow> 'x \<Rightarrow> 'n asyncAccumulator" where
  "asyncAccumulator_Update a number ex = a\<lparr>current_async := number\<rparr>"

definition asyncAccumulator_SnapshotAndProcess ::
  "('n, 's, 'x) Methods \<Rightarrow> ('k, 's, 'x) externals \<Rightarrow> 'n asyncAccumulator \<Rightarrow> bool
    \<Rightarrow> 's asyncStore \<Rightarrow> 's asyncStore" where
  "asyncAccumulator_SnapshotAndProcess m ext a release h =
     h(holder_async a :=
         (h (holder_async a))\<lparr>storage :=
            Update m (storage (h (holder_async a))) (current_async a) (noExemplarBits ext)\<rparr>)"

section \<open>Collection strategies\<close>

text \<open>
  An instrument's map \<^verbatim>\<open>map[attribute.Set]*storageHolder\<close> is a map from keys to
  addresses of the store. \<^verbatim>\<open>for set, entry := range p.data\<close> visits every key of the map
  once, in an order the runtime chooses: the list \<open>ks\<close> is that order, and the loop is
  a \<open>fold\<close> of its body over \<open>ks\<close>. \<^verbatim>\<open>Collect\<close> returns the store (and the maps it
  changes) together with \<^verbatim>\<open>*output\<close>, to which the instrument record of this collection
  has been appended.
\<close>

definition statefulSyncInstrument_Collect_body ::
  "('n, 's, 'x) Methods \<Rightarrow> ('k, 's, 'x) externals \<Rightarrow> Sequence \<Rightarrow> ('k \<rightharpoonup> addr) \<Rightarrow> 'k
    \<Rightarrow> 's syncStore \<times> ('k, 's) Instrument \<Rightarrow> 's syncStore \<times> ('k, 's) Instrument" where
  "statefulSyncInstrument_Collect_body m ext sq dat attrs =
     (\<lambda>(h, ioutput).
        case dat attrs of
          None \<Rightarrow> (h, ioutput)
        | Some entry \<Rightarrow>
            let (st', ioutput') =
                  appendPoint m ext ioutput attrs (storage (h entry))
                    CumulativeTemporality (Start sq) (Now sq) False
            in (h(entry := (h entry)\<lparr>storage := st'\<rparr>), ioutput'))"

definition statefulSyncInstrument_Collect ::
  "('n, 's, 'x) Methods \<Rightarrow> ('k, 's, 'x) externals \<Rightarrow> 'k list \<Rightarrow> ('k \<rightharpoonup> addr) \<Rightarrow> 's syncStore
    \<Rightarrow> Sequence \<Rightarrow> ('k, 's) Instrument list \<Rightarrow> 's syncStore \<times> ('k, 's) Instrument list" where
  "statefulSyncInstrument_Collect m ext ks dat h sq output =
     (let (h', ioutput) =
            fold (statefulSyncInstrument_Collect_body m ext sq dat) ks (h, appendInstrument)
      in (h', output @ [ioutput]))"

text \<open>
  The low-memory synchronous loop deletes the entry it is visiting, which a Go
  \<^verbatim>\<open>range\<close> allows: the keys still to come are visited all the same. After
  \<^verbatim>\<open>appendPoint\<close> the point slice is not empty, so \<^verbatim>\<open>ptsArr[len(ptsArr)-1]\<close> is its last
  element.
\<close>

definition lowmemorySyncInstrument_Collect_body ::
  "('n, 's, 'x) Methods \<Rightarrow> ('k, 's, 'x) externals \<Rightarrow> Sequence \<Rightarrow> 'k
    \<Rightarrow> ('k \<rightharpoonup> addr) \<times> 's syncStore \<times> ('k, 's) Instrument
    \<Rightarrow> ('k \<rightharpoonup> addr) \<times> 's syncStore \<times> ('k, 's) Instrument" where
  "lowmemorySyncInstrument_Collect_body m ext sq attrs =
     (\<lambda>(dat, h, ioutput).
        case dat attrs of
          None \<Rightarrow> (dat, h, ioutput)
        | Some entry \<Rightarrow>
            let numRefs = auxiliary (h entry);
                (st', ioutput1) =
                  appendPoint m ext ioutput attrs (storage (h entry))
                    DeltaTemporality (Last sq) (Now sq) True;
                h1 = h(entry := (h entry)\<lparr>storage := st'\<rparr>);
                ptsArr = Points ioutput1;
                point = last (elems ptsArr);
                cpy = Aggregation point
            in if HasChange m cpy then (dat, h1, ioutput1)
               else
                 let ioutput2 =
                       ioutput1\<lparr>Points :=
                         slice3 ptsArr 0 (length (elems ptsArr) - 1) (cap ptsArr)\<rparr>
                 in if numRefs = 0 then (dat(attrs := None), h1, ioutput2)
                    else (dat, h1, ioutput2))"

definition lowmemorySyncInstrument_Collect ::
  "('n, 's, 'x) Methods \<Rightarrow> ('k, 's, 'x) externals \<Rightarrow> 'k list \<Rightarrow> ('k \<rightharpoonup> addr) \<Rightarrow> 's syncStore
    \<Rightarrow> Sequence \<Rightarrow> ('k, 's) Instrument list
    \<Rightarrow> ('k \<rightharpoonup> addr) \<times> 's syncStore \<times> ('k, 's) Instrument list" where
  "lowmemorySyncInstrument_Collect m ext ks dat h sq output =
     (let (dat', h', ioutput) =
            fold (lowmemorySyncInstrument_Collect_body m ext sq) ks (dat, h, appendInstrument)
      in (dat', h', output @ [ioutput]))"

definition lowmemoryAsyncInstrument_Collect_body ::
  "('n, 's, 'x) Methods \<Rightarrow> ('k, 's, 'x) externals \<Rightarrow> Sequence \<Rightarrow> ('k \<rightharpoonup> addr) \<Rightarrow> 'k
    \<Rightarrow> 's asyncStore \<times> ('k, 's) Instrument \<Rightarrow> 's asyncStore \<times> ('k, 's) Instrument" where
  "lowmemoryAsyncInstrument_Collect_body m ext sq dat attrs =
     (\<lambda>(h, ioutput).
        case dat attrs of
          None \<Rightarrow> (h, ioutput)
        | Some entry \<Rightarrow>
            let (st', ioutput') =
                  appendPoint m ext ioutput attrs (storage (h entry))
                    CumulativeTemporality (Start sq) (Now sq) False
            in (h(entry := (h entry)\<lparr>storage := st'\<rparr>), ioutput'))"

definition lowmemoryAsyncInstrument_Collect ::
  "('n, 's, 'x) Methods \<Rightarrow> ('k, 's, 'x) externals \<Rightarrow> 'k list \<Rightarrow> ('k \<rightharpoonup> addr) \<Rightarrow> 's asyncStore
    \<Rightarrow> Sequence \<Rightarrow> ('k, 's) Instrument list
    \<Rightarrow> ('k \<rightharpoonup> addr) \<times> 's asyncStore \<times> ('k, 's) Instrument list" where
  "lowmemoryAsyncInstrument_Collect m ext ks dat h sq output =
     (let (h', ioutput) =
            fold (lowmemoryAsyncInstrument_Collect_body m ext sq dat) ks (h, appendInstrument)
      in (Map.empty, h', output @ [ioutput]))"

text \<open>
  The stateful asynchronous instrument has the second map \<^verbatim>\<open>prior\<close>. In the loop,
  \<^verbatim>\<open>ofe\<close> is a pointer (\<open>None\<close> is \<^verbatim>\<open>nil\<close>); \<^verbatim>\<open>entry = pval\<close> redirects the local
  variable only. \<open>fresh\<close> is the address at which \<^verbatim>\<open>&storageHolder{}\<close> allocates the
  copy of the overflow entry.
\<close>

record 'k statefulAsyncInstrument =
  data :: "'k \<rightharpoonup> addr"
  prior :: "'k \<rightharpoonup> addr"

definition statefulAsyncInstrument_InMemorySize :: "'k statefulAsyncInstrument \<Rightarrow> nat" where
  "statefulAsyncInstrument_InMemorySize p = card (dom (prior p))"

definition statefulAsyncInstrument_Collect_body ::
  "('n, 's, 'x) Methods \<Rightarrow> ('k, 's, 'x) externals \<Rightarrow> Sequence \<Rightarrow> 'k statefulAsyncInstrument \<Rightarrow> 'k
    \<Rightarrow> 's asyncStore \<times> ('k, 's) Instrument \<times> addr option
    \<Rightarrow> 's asyncStore \<times> ('k, 's) Instrument \<times> addr option" where
  "statefulAsyncInstrument_Collect_body m ext sq p attrs =
     (\<lambda>(h, ioutput, ofe).
        case data p attrs of
          None \<Rightarrow> (h, ioutput, ofe)
        | Some entry \<Rightarrow>
            let ofe' = (if attrs = OverflowAttributeSet ext then Some entry else ofe)
            in case prior p attrs of
                 Some pval \<Rightarrow>
                   let (ps, es) = SubtractSwap m (storage (h pval)) (storage (h entry));
                       h1 = h(pval := (h pval)\<lparr>storage := ps\<rparr>);
                       h2 = h1(entry := (h1 entry)\<lparr>storage := es\<rparr>)
                   in if \<not> HasChange m (storage (h2 pval)) then (h2, ioutput, ofe')
                      else
                        let (st', ioutput') =
                              appendPoint m ext ioutput attrs (storage (h2 pval))
                                DeltaTemporality (Last sq) (Now sq) False
                        in (h2(pval := (h2 pval)\<lparr>storage := st'\<rparr>), ioutput', ofe')
               | None \<Rightarrow>
                   let (st', ioutput') =
                         appendPoint m ext ioutput attrs (storage (h entry))
                           DeltaTemporality (Last sq) (Now sq) False
                   in (h(entry := (h entry)\<lparr>storage := st'\<rparr>), ioutput', ofe'))"

definition statefulAsyncInstrument_Collect ::
  "('n, 's, 'x) Methods \<Rightarrow> ('k, 's, 'x) externals \<Rightarrow> 'k list \<Rightarrow> addr
    \<Rightarrow> 'k statefulAsyncInstrument \<Rightarrow> 's asyncStore \<Rightarrow> Sequence \<Rightarrow> ('k, 's) Instrument list
    \<Rightarrow> 'k statefulAsyncInstrument \<times> 's asyncStore \<times> ('k, 's) Instrument list" where
  "statefulAsyncInstrument_Collect m ext ks fresh p h sq output =
     (let (h1, ioutput, ofe) =
            fold (statefulAsyncInstrument_Collect_body m ext sq p) ks (h, appendInstrument, None);
          p1 = p\<lparr>prior := data p, data := Map.empty\<rparr>
      in case ofe of
           None \<Rightarrow> (p1, h1, output @ [ioutput])
         | Some o_entry \<Rightarrow>
             let cpy = \<lparr>storage = Copy m (storage (h1 o_entry)) (zeroStorage ext),
                        auxiliary = notUsed\<rparr>
             in (p1\<lparr>data := (data p1)(OverflowAttributeSet ext \<mapsto> fresh)\<rparr>,
                 h1(fresh := cpy), output @ [ioutput]))"

section \<open>Well-formed states\<close>

text \<open>
  \<open>range_order ks mp\<close>: the list \<open>ks\<close> is an order in which \<^verbatim>\<open>range\<close> can yield the keys
  of the map, every key once. \<open>separate_holders\<close>: the map of an instrument has one
  holder per key, since the instrument base allocates a new holder for every new key.
  \<open>statefulAsync_wf\<close>: the same for both maps of the stateful asynchronous instrument,
  and no holder is in both; the address \<open>fresh\<close> of the next allocation is in
  neither.
\<close>

definition range_order :: "'k list \<Rightarrow> ('k \<rightharpoonup> 'v) \<Rightarrow> bool" where
  "range_order ks mp \<longleftrightarrow> distinct ks \<and> set ks = dom mp"

definition separate_holders :: "('k \<rightharpoonup> addr) \<Rightarrow> bool" where
  "separate_holders dat \<longleftrightarrow> inj_on dat (dom dat)"

definition statefulAsync_wf :: "addr \<Rightarrow> 'k statefulAsyncInstrument \<Rightarrow> bool" where
  "statefulAsync_wf fresh p \<longleftrightarrow>
     separate_holders (data p) \<and> separate_holders (prior p)
     \<and> ran (data p) \<inter> ran (prior p) = {}
     \<and> fresh \<notin> ran (data p) \<and> fresh \<notin> ran (prior p)"

text \<open>
  One iteration of the stateful asynchronous loop at the key \<open>k\<close>, as functions of the
  state before the loop. \<open>statefulAsync_emitted\<close> are the points it appends: when \<open>k\<close> is
  found in the prior map, the difference that \<open>SubtractSwap\<close> leaves in the prior holder,
  unless the algebra reports no change; when it is not found, the current value.
  \<open>statefulAsync_scanned\<close> is what the storage of the current entry holds after the
  iteration.
\<close>

definition statefulAsync_emitted ::
  "('n, 's, 'x) Methods \<Rightarrow> ('k, 's, 'x) externals \<Rightarrow> Sequence \<Rightarrow> 'k statefulAsyncInstrument
    \<Rightarrow> 's asyncStore \<Rightarrow> 'k \<Rightarrow> ('k, 's) Point list" where
  "statefulAsync_emitted m ext sq p h k =
     (case prior p k of
        Some pval \<Rightarrow>
          let difference = fst (SubtractSwap m (storage (h pval)) (storage (h (the (data p k)))))
          in if HasChange m difference
             then [\<lparr>Attributes = k, Aggregation = Copy m difference (newStorage ext),
                    Temporality = DeltaTemporality, PtStart = Last sq, PtEnd = Now sq\<rparr>]
             else []
      | None \<Rightarrow>
          [\<lparr>Attributes = k,
            Aggregation = Copy m (storage (h (the (data p k)))) (newStorage ext),
            Temporality = DeltaTemporality, PtStart = Last sq, PtEnd = Now sq\<rparr>])"

definition statefulAsync_scanned ::
  "('n, 's, 'x) Methods \<Rightarrow> 'k statefulAsyncInstrument \<Rightarrow> 's asyncStore \<Rightarrow> 'k \<Rightarrow> 's" where
  "statefulAsync_scanned m p h k =
     (case prior p k of
        Some pval \<Rightarrow> snd (SubtractSwap m (storage (h pval)) (storage (h (the (data p k)))))
      | None \<Rightarrow> storage (h (the (data p k))))"

section \<open>Schedules of accumulator calls\<close>

text \<open>
  The writers' calls on the accumulators of one instrument, in the order in which they
  take effect: \<open>UpdateCall i\<close> is \<^verbatim>\<open>Update(v, ex)\<close> and \<open>SnapshotCall i\<close> is
  \<^verbatim>\<open>SnapshotAndProcess(true)\<close> on the accumulator at index \<open>i\<close> of the list. An
  \<^verbatim>\<open>Update\<close> writes only the accumulator's own \<open>current\<close>, and a
  \<^verbatim>\<open>SnapshotAndProcess\<close> runs under the accumulator's lock and merges into the shared
  holder by the algebra's atomic \<open>Merge\<close>, so concurrent calls act as if they ran in
  some order. \<open>update_then_snapshot n sched\<close>: each of the \<open>n\<close> accumulators makes one
  \<^verbatim>\<open>Update\<close> and after it one \<^verbatim>\<open>SnapshotAndProcess\<close>, interleaved with the calls of the
  others in any way. \<open>calls_inv\<close> is the invariant of such a run over the sum algebra,
  after the calls \<open>past\<close>.
\<close>

datatype call = UpdateCall nat | SnapshotCall nat

fun call_index :: "call \<Rightarrow> nat" where
  "call_index (UpdateCall i) = i"
| "call_index (SnapshotCall i) = i"

definition run_call ::
  "('n, 's, 'x) Methods \<Rightarrow> 'n \<Rightarrow> 'x \<Rightarrow> call
    \<Rightarrow> 's syncAccumulator list \<times> 's syncStore \<Rightarrow> 's syncAccumulator list \<times> 's syncStore" where
  "run_call m v ex c =
     (\<lambda>(accs, h).
        case c of
          UpdateCall i \<Rightarrow> (accs[i := syncAccumulator_Update m (accs ! i) v ex], h)
        | SnapshotCall i \<Rightarrow>
            let (a', h') = syncAccumulator_SnapshotAndProcess m (accs ! i) True h
            in (accs[i := a'], h'))"

definition run_calls ::
  "('n, 's, 'x) Methods \<Rightarrow> 'n \<Rightarrow> 'x \<Rightarrow> call list
    \<Rightarrow> 's syncAccumulator list \<times> 's syncStore \<Rightarrow> 's syncAccumulator list \<times> 's syncStore" where
  "run_calls m v ex sched = fold (run_call m v ex) sched"

definition update_then_snapshot :: "nat \<Rightarrow> call list \<Rightarrow> bool" where
  "update_then_snapshot n sched \<longleftrightarrow>
     (\<forall>c\<in>set sched. call_index c < n)
     \<and> (\<forall>i<n. filter (\<lambda>c. call_index c = i) sched = [UpdateCall i, SnapshotCall i])"

definition calls_inv ::
  "nat \<Rightarrow> addr \<Rightarrow> 64 word \<Rightarrow> 64 word \<Rightarrow> 64 word \<Rightarrow> call list
    \<Rightarrow> (64 word) syncAccumulator list \<times> (64 word) syncStore \<Rightarrow> bool" where
  "calls_inv n e s aux v past st \<longleftrightarrow>
     (case st of (accs, h) \<Rightarrow>
        length accs = n
        \<and> (\<forall>a\<in>set accs. holder a = e)
        \<and> storage (h e) + sum_list (map current accs)
            = s + of_nat (length (filter (\<lambda>c. \<exists>i. c = UpdateCall i) past)) * v
        \<and> auxiliary (h e) = aux - of_nat (length (filter (\<lambda>c. \<exists>i. c = SnapshotCall i) past))
        \<and> (\<forall>i<n. (filter (\<lambda>c. call_index c = i) past = []
                   \<or> last (filter (\<lambda>c. call_index c = i) past) = SnapshotCall i)
                  \<longrightarrow> current (accs ! i) = 0))"

section \<open>The integer sum algebra\<close>

text \<open>
  Modelled from the spec: the sum aggregation over \<^verbatim>\<open>int64\<close>, the "sum-like storage" of
  the testable properties, is declared outside the sources. Its state is the running
  total, a 64-bit word. \<open>Update\<close> adds the measurement, \<open>Merge src dst\<close> adds the source
  to the destination, \<open>Move src dst\<close> copies the source into the destination and resets
  the source to zero, \<open>SubtractSwap a b\<close> computes \<open>a := b - a\<close> and leaves \<open>b\<close>,
  \<open>Copy\<close> copies, and \<open>HasChange\<close> tells whether the state differs from zero.
\<close>

definition sum_Methods :: "(64 word, 64 word, 'x) Methods" where
  "sum_Methods =
     \<lparr>Update = (\<lambda>st number ex. st + number),
      Move = (\<lambda>src dst. (0, src)),
      Merge = (\<lambda>src dst. dst + src),
      SubtractSwap = (\<lambda>a b. (b - a, b)),
      Copy = (\<lambda>src dst. src),
      HasChange = (\<lambda>st. st \<noteq> 0)\<rparr>"

text \<open>
  The surroundings of the sum algebra in the examples: attribute sets are strings, the
  zero and the initial storage are the total zero, a full slice doubles, and the exemplar
  bits carry nothing.
\<close>

definition sum_externals :: "(string, 64 word, unit) externals" where
  "sum_externals =
     \<lparr>OverflowAttributeSet = ''otel.metric.overflow'',
      zeroStorage = 0,
      newStorage = 0,
      growslice = (\<lambda>n. 2 * n),
      noExemplarBits = ()\<rparr>"

section \<open>Example states\<close>

text \<open>Concrete states of the instruments over the sum algebra, for the examples.\<close>

definition example_sequence :: Sequence where
  "example_sequence = \<lparr>Start = 10, Last = 20, Now = 30\<rparr>"

definition example_sync_data :: "string \<rightharpoonup> addr" where
  "example_sync_data = [''a'' \<mapsto> 10, ''b'' \<mapsto> 11, ''c'' \<mapsto> 12]"

definition example_sync_store :: "(64 word) syncStore" where
  "example_sync_store =
     (\<lambda>_. \<lparr>storage = 0, auxiliary = 0\<rparr>)
       (10 := \<lparr>storage = 5, auxiliary = 0\<rparr>, 12 := \<lparr>storage = 0, auxiliary = 1\<rparr>)"

definition example_async_data :: "string \<rightharpoonup> addr" where
  "example_async_data = [''a'' \<mapsto> 10, ''b'' \<mapsto> 11]"

definition example_async_store :: "(64 word) asyncStore" where
  "example_async_store =
     (\<lambda>_. \<lparr>storage = 0, auxiliary = notUsed\<rparr>)
       (10 := \<lparr>storage = 7, auxiliary = notUsed\<rparr>, 11 := \<lparr>storage = 9, auxiliary = notUsed\<rparr>)"

definition example_counter_data :: "string \<rightharpoonup> addr" where
  "example_counter_data = [''a'' \<mapsto> 20]"

definition example_counter_store :: "(64 word) syncStore" where
  "example_counter_store = (\<lambda>_. \<lparr>storage = 0, auxiliary = 2\<rparr>)"

definition example_accumulators :: "(64 word) syncAccumulator list" where
  "example_accumulators =
     [\<lparr>current = 0, snapshot = 0, holder = 20\<rparr>, \<lparr>current = 0, snapshot = 0, holder = 20\<rparr>]"

definition example_schedule :: "call list" where
  "example_schedule = [UpdateCall 0, UpdateCall 1, SnapshotCall 1, SnapshotCall 0]"

definition example_first_cycle :: "string statefulAsyncInstrument" where
  "example_first_cycle = \<lparr>data = [''a'' \<mapsto> 10], prior = Map.empty\<rparr>"

definition example_first_store :: "(64 word) asyncStore" where
  "example_first_store =
     (\<lambda>_. \<lparr>storage = 0, auxiliary = notUsed\<rparr>)(10 := \<lparr>storage = 5, auxiliary = notUsed\<rparr>)"

definition example_second_cycle :: "string statefulAsyncInstrument" where
  "example_second_cycle = \<lparr>data = [''a'' \<mapsto> 11], prior = [''a'' \<mapsto> 10]\<rparr>"

definition example_second_store :: "(64 word) asyncStore" where
  "example_second_store =
     (\<lambda>_. \<lparr>storage = 0, auxiliary = notUsed\<rparr>)
       (10 := \<lparr>storage = 5, auxiliary = notUsed\<rparr>, 11 := \<lparr>storage = 8, auxiliary = notUsed\<rparr>)"

definition example_overflow_cycle :: "string statefulAsyncInstrument" where
  "example_overflow_cycle =
     \<lparr>data = [''otel.metric.overflow'' \<mapsto> 10, ''a'' \<mapsto> 11],
      prior = [''otel.metric.overflow'' \<mapsto> 12]\<rparr>"

definition example_overflow_store :: "(64 word) asyncStore" where
  "example_overflow_store =
     (\<lambda>_. \<lparr>storage = 0, auxiliary = notUsed\<rparr>)
       (10 := \<lparr>storage = 9, auxiliary = notUsed\<rparr>, 11 := \<lparr>storage = 4, auxiliary = notUsed\<rparr>,
        12 := \<lparr>storage = 9, auxiliary = notUsed\<rparr>)"

definition example_drop_cycle :: "string statefulAsyncInstrument" where
  "example_drop_cycle = \<lparr>data = [''b'' \<mapsto> 11], prior = [''a'' \<mapsto> 10]\<rparr>"

definition example_drop_store :: "(64 word) asyncStore" where
  "example_drop_store =
     (\<lambda>_. \<lparr>storage = 0, auxiliary = notUsed\<rparr>)
       (10 := \<lparr>storage = 5, auxiliary = notUsed\<rparr>, 11 := \<lparr>storage = 2, auxiliary = notUsed\<rparr>)"

definition example_return_cycle :: "string statefulAsyncInstrument" where
  "example_return_cycle = \<lparr>data = [''a'' \<mapsto> 13], prior = [''b'' \<mapsto> 11]\<rparr>"

definition example_return_store :: "(64 word) asyncStore" where
  "example_return_store =
     (\<lambda>_. \<lparr>storage = 0, auxiliary = notUsed\<rparr>)
       (11 := \<lparr>storage = 2, auxiliary = notUsed\<rparr>, 13 := \<lparr>storage = 7, auxiliary = notUsed\<rparr>)"

section \<open>Numeric value: round trips and coercion\<close>

lemma sint_word_of_int_int64:
  assumes "is_int64 i"
  shows "sint (word_of_int i :: 64 word) = i"
proof -
  have "- (2 ^ (LENGTH(64) - 1)) \<le> i" "i < 2 ^ (LENGTH(64) - 1)"
    using assms by (simp_all add: is_int64_def)
  then have "signed_take_bit (LENGTH(64) - 1) i = i"
    by (rule signed_take_bit_int_eq_self)
  then show ?thesis
    by (simp add: signed_of_int)
qed

text \<open>
  Claim C5. For every \<^verbatim>\<open>int64\<close> value \<open>i\<close>, negative ones included,
  \<open>ToInt64 (FromInt64 i) = i\<close>; and for every \<^verbatim>\<open>float64\<close> \<open>f\<close> (every bit pattern, so
  NaN, the infinities and both zeros as well) \<open>ToFloat64 (FromFloat64 f)\<close> has the bit
  pattern of \<open>f\<close>.
\<close>

theorem number_round_trip:
  assumes "is_int64 i"
  shows "ToInt64 (FromInt64 i) = i
    \<and> Float64bits (ToFloat64 (FromFloat64 f)) = Float64bits f"
  using assms
  by (simp add: ToInt64_def FromInt64_def ToFloat64_def FromFloat64_def
      sint_word_of_int_int64)

theorem number_round_trip_witness:
  "is_int64 (- 5) \<and> ToInt64 (FromInt64 (- 5)) = - 5
   \<and> Float64bits (ToFloat64 (FromFloat64 (Float64frombits 0x7FF8000000000001)))
       = 0x7FF8000000000001"
proof -
  have h: "is_int64 (- 5)"
    by (simp add: is_int64_def)
  show ?thesis
    using h number_round_trip [OF h, of "Float64frombits 0x7FF8000000000001"]
    by simp
qed

lemma bitlen_eq:
  "2 ^ k \<le> n \<Longrightarrow> n < 2 ^ Suc k \<Longrightarrow> bitlen n = Suc k"
proof (induction k arbitrary: n)
  case 0
  then have "n = 1" by simp
  then show ?case by (simp add: bitlen.simps)
next
  case (Suc k)
  have "2 ^ k \<le> n div 2" "n div 2 < 2 ^ Suc k"
    using Suc.prems by simp_all
  then have "bitlen (n div 2) = Suc k"
    by (rule Suc.IH)
  moreover have "n \<noteq> 0"
    using Suc.prems by auto
  ultimately show ?case
    by (subst bitlen.simps) simp
qed

lemma bitlen_max_uint64: "bitlen 18446744073709551615 = 64"
  using bitlen_eq [of 63 18446744073709551615] by simp

lemma bitlen_one: "bitlen (Suc 0) = Suc 0"
  using bitlen_eq [of 0 1] by simp

lemma uint_FromInt64_minus_one: "uint (FromInt64 (- 1)) = 18446744073709551615"
  by (simp add: FromInt64_def unsigned_minus_1_eq_mask mask_eq_exp_minus_1)

text \<open>
  The coercion is right where the two readings of the bits agree: for an \<^verbatim>\<open>int64\<close> that
  is not negative, and for \<^verbatim>\<open>Float64Kind\<close>.
\<close>

lemma CoerceToFloat64_nonneg:
  assumes "is_int64 i" and "0 \<le> i"
  shows "CoerceToFloat64 (FromInt64 i) Int64Kind = float64_of_int i"
proof -
  have "i < 2 ^ 64"
    using assms(1) by (simp add: is_int64_def)
  with assms(2) have "uint (word_of_int i :: 64 word) = i"
    by (simp add: unsigned_of_int take_bit_int_eq_self)
  then show ?thesis
    by (simp add: CoerceToFloat64_def FromInt64_def)
qed

lemma CoerceToFloat64_Float64Kind:
  "Float64bits (CoerceToFloat64 (FromFloat64 f) Float64Kind) = Float64bits f"
  by (simp add: CoerceToFloat64_def FromFloat64_def)

text \<open>
  Claim C6. For every \<^verbatim>\<open>int64\<close> \<open>i\<close>, \<open>CoerceToFloat64 (FromInt64 i) Int64Kind\<close> should be
  the \<^verbatim>\<open>float64\<close> conversion of the signed integer \<open>i\<close>. At \<open>i = - 1\<close> the code converts
  the unsigned value \<open>2 ^ 64 - 1\<close> instead: the result has the bits \<open>0x43F0000000000000\<close>
  (the float \<open>2 ^ 64\<close>), while the conversion of \<open>- 1\<close> has the bits
  \<open>0xBFF0000000000000\<close> (the float \<open>- 1\<close>).
\<close>

theorem CoerceToFloat64_minus_one:
  "is_int64 (- 1)
   \<and> Float64bits (CoerceToFloat64 (FromInt64 (- 1)) Int64Kind) = 0x43F0000000000000
   \<and> Float64bits (float64_of_int (- 1)) = 0xBFF0000000000000"
  by (simp add: is_int64_def CoerceToFloat64_def uint_FromInt64_minus_one float64_of_int_def
      bitlen_max_uint64 bitlen_one Let_def)

section \<open>Accumulators: snapshot and process\<close>

lemma int64_decrement_changes: "(x :: 64 word) - 1 \<noteq> x"
proof
  assume "x - 1 = x"
  then have "x - 1 - x = x - x"
    by simp
  then show False
    by simp
qed

text \<open>
  Claim C7. \<open>SnapshotAndProcess release\<close> of a synchronous accumulator moves \<open>current\<close>
  into \<open>snapshot\<close> (with an algebra whose \<open>Move\<close> resets the source to \<open>z\<close>, \<open>current\<close> is
  \<open>z\<close> afterwards and \<open>snapshot\<close> is the former \<open>current\<close>), merges \<open>snapshot\<close> into the
  storage of the bound holder, and decrements the holder's reference count by one
  exactly when \<open>release\<close> is true; without \<open>release\<close> the count is unchanged. The
  accumulator stays bound to its holder and no other holder changes.
\<close>

theorem syncAccumulator_SnapshotAndProcess_effect:
  assumes "syncAccumulator_SnapshotAndProcess m a release h = (a', h')"
  shows "current a' = fst (Move m (current a) (snapshot a))
    \<and> snapshot a' = snd (Move m (current a) (snapshot a))
    \<and> holder a' = holder a
    \<and> storage (h' (holder a)) = Merge m (snapshot a') (storage (h (holder a)))
    \<and> (auxiliary (h' (holder a)) = auxiliary (h (holder a)) - 1 \<longleftrightarrow> release)
    \<and> (\<not> release \<longrightarrow> auxiliary (h' (holder a)) = auxiliary (h (holder a)))
    \<and> (\<forall>b. b \<noteq> holder a \<longrightarrow> h' b = h b)
    \<and> ((\<forall>src dst. Move m src dst = (z, src)) \<longrightarrow> current a' = z \<and> snapshot a' = current a)"
  using assms int64_decrement_changes [of "auxiliary (h (holder a))"]
  by (auto simp: syncAccumulator_SnapshotAndProcess_def Let_def split: prod.splits if_splits)

theorem syncAccumulator_SnapshotAndProcess_effect_witness:
  "syncAccumulator_SnapshotAndProcess sum_Methods
       \<lparr>current = 5, snapshot = 0, holder = 2\<rparr> True (\<lambda>_. \<lparr>storage = 10, auxiliary = 1\<rparr>)
     = (\<lparr>current = 0, snapshot = 5, holder = 2\<rparr>,
        (\<lambda>_. \<lparr>storage = 10, auxiliary = 1\<rparr>)(2 := \<lparr>storage = 15, auxiliary = 0\<rparr>))
   \<and> storage (((\<lambda>_. \<lparr>storage = 10 :: 64 word, auxiliary = 1 :: 64 word\<rparr>)
                  (2 := \<lparr>storage = 15, auxiliary = 0\<rparr>)) (2 :: nat)) = 15"
proof -
  have run: "syncAccumulator_SnapshotAndProcess sum_Methods
       \<lparr>current = 5, snapshot = 0, holder = 2\<rparr> True (\<lambda>_. \<lparr>storage = 10, auxiliary = 1\<rparr>)
     = (\<lparr>current = 0, snapshot = 5, holder = 2\<rparr>,
        (\<lambda>_. \<lparr>storage = 10, auxiliary = 1\<rparr>)(2 := \<lparr>storage = 15, auxiliary = 0\<rparr>))"
    by (simp add: syncAccumulator_SnapshotAndProcess_def sum_Methods_def)
  show ?thesis
    using run syncAccumulator_SnapshotAndProcess_effect [OF run, of 0]
    by simp
qed

text \<open>
  Claim C10. \<open>SnapshotAndProcess\<close> of an asynchronous accumulator does not look at its
  \<open>release\<close> argument; every call applies the staged value \<open>current\<close> to the storage of
  the bound holder by \<open>Update\<close> with the empty exemplar bits. Two calls in a row, with
  no \<open>Update\<close> of the accumulator between them, apply the same value twice; for the sum
  algebra and a staged value other than zero the second call changes the store again.
\<close>

theorem asyncAccumulator_SnapshotAndProcess_repeats:
  "asyncAccumulator_SnapshotAndProcess m ext a release h
     = h(holder_async a := (h (holder_async a))\<lparr>storage :=
          Update m (storage (h (holder_async a))) (current_async a) (noExemplarBits ext)\<rparr>)
   \<and> asyncAccumulator_SnapshotAndProcess m ext a True h
       = asyncAccumulator_SnapshotAndProcess m ext a False h
   \<and> storage (asyncAccumulator_SnapshotAndProcess m ext a rb
                (asyncAccumulator_SnapshotAndProcess m ext a ra h) (holder_async a))
       = Update m (Update m (storage (h (holder_async a))) (current_async a) (noExemplarBits ext))
           (current_async a) (noExemplarBits ext)
   \<and> (current_async b \<noteq> 0 \<longrightarrow>
        storage (asyncAccumulator_SnapshotAndProcess sum_Methods ext' b rb
                  (asyncAccumulator_SnapshotAndProcess sum_Methods ext' b ra g) (holder_async b))
          = storage (g (holder_async b)) + current_async b + current_async b
        \<and> asyncAccumulator_SnapshotAndProcess sum_Methods ext' b rb
              (asyncAccumulator_SnapshotAndProcess sum_Methods ext' b ra g)
            \<noteq> asyncAccumulator_SnapshotAndProcess sum_Methods ext' b ra g)"
proof -
  have neq: "asyncAccumulator_SnapshotAndProcess sum_Methods ext' b rb
              (asyncAccumulator_SnapshotAndProcess sum_Methods ext' b ra g)
            \<noteq> asyncAccumulator_SnapshotAndProcess sum_Methods ext' b ra g"
    if "current_async b \<noteq> 0"
  proof
    assume "asyncAccumulator_SnapshotAndProcess sum_Methods ext' b rb
              (asyncAccumulator_SnapshotAndProcess sum_Methods ext' b ra g)
            = asyncAccumulator_SnapshotAndProcess sum_Methods ext' b ra g"
    then have "storage (asyncAccumulator_SnapshotAndProcess sum_Methods ext' b rb
              (asyncAccumulator_SnapshotAndProcess sum_Methods ext' b ra g) (holder_async b))
            = storage (asyncAccumulator_SnapshotAndProcess sum_Methods ext' b ra g (holder_async b))"
      by simp
    then show False
      using that by (simp add: asyncAccumulator_SnapshotAndProcess_def sum_Methods_def)
  qed
  show ?thesis
    using neq by (simp add: asyncAccumulator_SnapshotAndProcess_def sum_Methods_def)
qed

theorem asyncAccumulator_SnapshotAndProcess_repeats_witness:
  "current_async \<lparr>current_async = 3 :: 64 word, holder_async = 1\<rparr> \<noteq> 0
   \<and> storage (asyncAccumulator_SnapshotAndProcess sum_Methods sum_externals
                \<lparr>current_async = 3, holder_async = 1\<rparr> True
                (asyncAccumulator_SnapshotAndProcess sum_Methods sum_externals
                   \<lparr>current_async = 3, holder_async = 1\<rparr> True
                   (\<lambda>_. \<lparr>storage = 4, auxiliary = notUsed\<rparr>)) 1) = 10"
proof -
  have nz: "current_async \<lparr>current_async = 3 :: 64 word, holder_async = 1\<rparr> \<noteq> 0"
    by simp
  have twice: "storage (asyncAccumulator_SnapshotAndProcess sum_Methods sum_externals
                \<lparr>current_async = 3, holder_async = 1\<rparr> True
                (asyncAccumulator_SnapshotAndProcess sum_Methods sum_externals
                   \<lparr>current_async = 3, holder_async = 1\<rparr> True
                   (\<lambda>_. \<lparr>storage = 4, auxiliary = notUsed\<rparr>)) 1) = 4 + 3 + 3"
    using asyncAccumulator_SnapshotAndProcess_repeats
      [where b = "\<lparr>current_async = 3, holder_async = 1\<rparr>" and ext' = sum_externals
        and ra = True and rb = True
        and g = "\<lambda>_. \<lparr>storage = 4, auxiliary = notUsed\<rparr>"
        and m = sum_Methods and ext = sum_externals and release = True
        and a = "\<lparr>current_async = 3, holder_async = 1\<rparr>"
        and h = "\<lambda>_. \<lparr>storage = 4, auxiliary = notUsed\<rparr>",
        THEN conjunct2, THEN conjunct2, THEN conjunct2, rule_format, OF nz, THEN conjunct1]
    by (simp only: asyncAccumulator.simps storageHolder.simps)
  show ?thesis
    using nz twice by simp
qed

section \<open>Output points and the loops of Collect\<close>

lemma appendPoint_copy:
  "appendPoint m ext io k st tempo t0 t1 False =
     (st, io\<lparr>Points := append_slice (growslice ext) (Points io)
        \<lparr>Attributes = k, Aggregation = Copy m st (newStorage ext), Temporality = tempo,
         PtStart = t0, PtEnd = t1\<rparr>\<rparr>)"
  by (simp add: appendPoint_def)

lemma appendPoint_move:
  "appendPoint m ext io k st tempo t0 t1 True =
     (fst (Move m st (newStorage ext)),
      io\<lparr>Points := append_slice (growslice ext) (Points io)
        \<lparr>Attributes = k, Aggregation = snd (Move m st (newStorage ext)), Temporality = tempo,
         PtStart = t0, PtEnd = t1\<rparr>\<rparr>)"
  by (simp add: appendPoint_def split: prod.splits)

lemma elems_append_slice [simp]: "elems (append_slice g s x) = elems s @ [x]"
  by (simp add: append_slice_def)

lemma lowmemoryAsync_body_in:
  assumes "dat k = Some e"
  shows "lowmemoryAsyncInstrument_Collect_body m ext sq dat k (h, io) =
    (h, io\<lparr>Points := append_slice (growslice ext) (Points io)
        \<lparr>Attributes = k, Aggregation = Copy m (storage (h e)) (newStorage ext),
         Temporality = CumulativeTemporality, PtStart = Start sq, PtEnd = Now sq\<rparr>\<rparr>)"
  using assms by (simp add: lowmemoryAsyncInstrument_Collect_body_def appendPoint_copy)

lemma lowmemoryAsync_fold:
  assumes "set ks \<subseteq> dom dat"
  shows "fst (fold (lowmemoryAsyncInstrument_Collect_body m ext sq dat) ks (h, io)) = h
    \<and> elems (Points (snd (fold (lowmemoryAsyncInstrument_Collect_body m ext sq dat) ks (h, io))))
        = elems (Points io) @
          map (\<lambda>k. \<lparr>Attributes = k,
                     Aggregation = Copy m (storage (h (the (dat k)))) (newStorage ext),
                     Temporality = CumulativeTemporality, PtStart = Start sq, PtEnd = Now sq\<rparr>) ks"
  using assms
proof (induction ks arbitrary: io)
  case Nil
  then show ?case by simp
next
  case (Cons k ks)
  then obtain e where e: "dat k = Some e"
    by auto
  from Cons.prems have "set ks \<subseteq> dom dat"
    by simp
  note IH = Cons.IH [OF this]
  show ?case
    using e by (simp add: lowmemoryAsync_body_in IH)
qed

lemma slice3_drop_last [simp]:
  "slice3 (append_slice g s x) 0 (length (elems s)) c = \<lparr>elems = elems s, cap = c\<rparr>"
  by (simp add: slice3_def append_slice_def)

lemma lowmemorySync_body_in:
  assumes "dat k = Some e"
  shows "lowmemorySyncInstrument_Collect_body m ext sq k (dat, h, io) =
    (if HasChange m (snd (Move m (storage (h e)) (newStorage ext)))
     then (dat, h(e := (h e)\<lparr>storage := fst (Move m (storage (h e)) (newStorage ext))\<rparr>),
           io\<lparr>Points := append_slice (growslice ext) (Points io)
             \<lparr>Attributes = k, Aggregation = snd (Move m (storage (h e)) (newStorage ext)),
              Temporality = DeltaTemporality, PtStart = Last sq, PtEnd = Now sq\<rparr>\<rparr>)
     else (if auxiliary (h e) = 0 then dat(k := None) else dat,
           h(e := (h e)\<lparr>storage := fst (Move m (storage (h e)) (newStorage ext))\<rparr>),
           io\<lparr>Points := \<lparr>elems = elems (Points io),
              cap = cap (append_slice (growslice ext) (Points io)
                \<lparr>Attributes = k, Aggregation = snd (Move m (storage (h e)) (newStorage ext)),
                 Temporality = DeltaTemporality, PtStart = Last sq, PtEnd = Now sq\<rparr>)\<rparr>\<rparr>))"
  using assms
  by (simp add: lowmemorySyncInstrument_Collect_body_def appendPoint_move Let_def)

lemma lowmemorySync_fold:
  assumes "distinct ks"
    and "inj_on dat0 (set ks)"
    and "\<forall>k\<in>set ks. dat0 k \<noteq> None \<and> dat k = dat0 k \<and> h (the (dat0 k)) = h0 (the (dat0 k))"
  shows "case fold (lowmemorySyncInstrument_Collect_body m ext sq) ks (dat, h, io) of
      (dat', h', io') \<Rightarrow>
        (\<forall>k. dat' k =
           (if k \<in> set ks
               \<and> \<not> HasChange m (snd (Move m (storage (h0 (the (dat0 k)))) (newStorage ext)))
               \<and> auxiliary (h0 (the (dat0 k))) = 0
            then None else dat k))
        \<and> (\<forall>a. h' a =
             (if a \<in> (\<lambda>k. the (dat0 k)) ` set ks
              then (h0 a)\<lparr>storage := fst (Move m (storage (h0 a)) (newStorage ext))\<rparr>
              else h a))
        \<and> elems (Points io') = elems (Points io) @
             map (\<lambda>k. \<lparr>Attributes = k,
                        Aggregation = snd (Move m (storage (h0 (the (dat0 k)))) (newStorage ext)),
                        Temporality = DeltaTemporality, PtStart = Last sq, PtEnd = Now sq\<rparr>)
               (filter (\<lambda>k. HasChange m (snd (Move m (storage (h0 (the (dat0 k)))) (newStorage ext)))) ks)"
  using assms
proof (induction ks arbitrary: dat h io)
  case Nil
  then show ?case by simp
next
  case (Cons k ks)
  from Cons.prems(3) obtain e where e: "dat0 k = Some e" "dat k = Some e" "h e = h0 e"
    by auto
  obtain dat1 h1 io1 where step:
    "lowmemorySyncInstrument_Collect_body m ext sq k (dat, h, io) = (dat1, h1, io1)"
    by (cases "lowmemorySyncInstrument_Collect_body m ext sq k (dat, h, io)")
  have dat1: "dat1 = (if \<not> HasChange m (snd (Move m (storage (h0 e)) (newStorage ext)))
                        \<and> auxiliary (h0 e) = 0 then dat(k := None) else dat)"
    and h1: "h1 = h(e := (h0 e)\<lparr>storage := fst (Move m (storage (h0 e)) (newStorage ext))\<rparr>)"
    and io1: "elems (Points io1) = elems (Points io) @
        (if HasChange m (snd (Move m (storage (h0 e)) (newStorage ext)))
         then [\<lparr>Attributes = k, Aggregation = snd (Move m (storage (h0 e)) (newStorage ext)),
                Temporality = DeltaTemporality, PtStart = Last sq, PtEnd = Now sq\<rparr>]
         else [])"
    using step e by (auto simp: lowmemorySync_body_in split: if_splits)
  have k_notin: "k \<notin> set ks" and dist: "distinct ks"
    using Cons.prems(1) by simp_all
  have inj: "inj_on dat0 (set ks)"
    using Cons.prems(2) by (simp add: inj_on_def)
  have other: "the (dat0 k') \<noteq> e" if "k' \<in> set ks" for k'
  proof
    assume eq: "the (dat0 k') = e"
    from that Cons.prems(3) obtain e' where "dat0 k' = Some e'"
      by auto
    with eq e(1) have "dat0 k' = dat0 k"
      by simp
    with Cons.prems(2) that have "k' = k"
      by (simp add: inj_on_def)
    with k_notin that show False
      by simp
  qed
  have agree: "\<forall>k'\<in>set ks. dat0 k' \<noteq> None \<and> dat1 k' = dat0 k' \<and> h1 (the (dat0 k')) = h0 (the (dat0 k'))"
    using Cons.prems(3) k_notin other by (auto simp: dat1 h1)
  note IH = Cons.IH [OF dist inj agree, of io1]
  obtain dat' h' io' where res:
    "fold (lowmemorySyncInstrument_Collect_body m ext sq) ks (dat1, h1, io1) = (dat', h', io')"
    by (cases "fold (lowmemorySyncInstrument_Collect_body m ext sq) ks (dat1, h1, io1)")
  from IH res have
    A: "\<forall>k. dat' k =
           (if k \<in> set ks
               \<and> \<not> HasChange m (snd (Move m (storage (h0 (the (dat0 k)))) (newStorage ext)))
               \<and> auxiliary (h0 (the (dat0 k))) = 0
            then None else dat1 k)"
    and B: "\<forall>a. h' a =
             (if a \<in> (\<lambda>k. the (dat0 k)) ` set ks
              then (h0 a)\<lparr>storage := fst (Move m (storage (h0 a)) (newStorage ext))\<rparr>
              else h1 a)"
    and C: "elems (Points io') = elems (Points io1) @
             map (\<lambda>k. \<lparr>Attributes = k,
                        Aggregation = snd (Move m (storage (h0 (the (dat0 k)))) (newStorage ext)),
                        Temporality = DeltaTemporality, PtStart = Last sq, PtEnd = Now sq\<rparr>)
               (filter (\<lambda>k. HasChange m (snd (Move m (storage (h0 (the (dat0 k)))) (newStorage ext)))) ks)"
    by simp_all
  have A': "\<forall>k'. dat' k' =
           (if k' \<in> set (k # ks)
               \<and> \<not> HasChange m (snd (Move m (storage (h0 (the (dat0 k')))) (newStorage ext)))
               \<and> auxiliary (h0 (the (dat0 k'))) = 0
            then None else dat k')"
    using A k_notin e by (auto simp: dat1)
  have B': "\<forall>a. h' a =
             (if a \<in> (\<lambda>k. the (dat0 k)) ` set (k # ks)
              then (h0 a)\<lparr>storage := fst (Move m (storage (h0 a)) (newStorage ext))\<rparr>
              else h a)"
    using B e by (auto simp: h1)
  have C': "elems (Points io') = elems (Points io) @
             map (\<lambda>k. \<lparr>Attributes = k,
                        Aggregation = snd (Move m (storage (h0 (the (dat0 k)))) (newStorage ext)),
                        Temporality = DeltaTemporality, PtStart = Last sq, PtEnd = Now sq\<rparr>)
               (filter (\<lambda>k. HasChange m (snd (Move m (storage (h0 (the (dat0 k)))) (newStorage ext)))) (k # ks))"
    using C e by (simp add: io1)
  show ?case
    using A' B' C' by (simp add: step res)
qed

section \<open>Low-memory synchronous Collect\<close>

lemma filter_key_map_filter:
  assumes "distinct ks" and "\<And>k'. key (f k') = k'"
  shows "filter (\<lambda>x. key x = k) (map f (filter P ks)) = (if k \<in> set ks \<and> P k then [f k] else [])"
  using assms(1)
proof (induction ks)
  case Nil
  then show ?case by simp
next
  case (Cons a ks)
  then show ?case
    by (auto simp: assms(2))
qed

lemma range_order_facts:
  assumes "range_order ks dat"
  shows "distinct ks" and "set ks = dom dat" and "\<forall>k\<in>set ks. dat k \<noteq> None"
  using assms by (auto simp: range_order_def)

lemma separate_holders_inj:
  assumes "separate_holders dat" and "set ks = dom dat"
  shows "inj_on dat (set ks)"
  using assms by (simp add: separate_holders_def)

text \<open>
  Claim C3. \<open>Collect\<close> of the low-memory synchronous instrument, for every entry \<open>k\<close>
  of the map with holder \<open>e\<close>: the reference count it tests is the one of the store
  before the move; the storage is moved out into the point and left reset; the point is
  in the output exactly when the moved-out value has a change; when it has none, the
  appended point is rolled back (the point sequence loses its last element, its length
  shrinks by one and its capacity stays); and the entry is deleted from the map exactly
  when, in addition, the captured reference count is zero. So an entry whose captured
  count is positive, or whose value changed, stays.
\<close>

theorem lowmemorySync_Collect_prunes:
  assumes ro: "range_order ks dat"
    and sep: "separate_holders dat"
    and run: "lowmemorySyncInstrument_Collect m ext ks dat h sq output = (dat', h', output')"
  shows "(\<forall>k e. dat k = Some e \<longrightarrow>
            storage (h' e) = fst (Move m (storage (h e)) (newStorage ext))
          \<and> auxiliary (h' e) = auxiliary (h e)
          \<and> filter (\<lambda>pt. Attributes pt = k) (elems (Points (last output')))
              = (if HasChange m (snd (Move m (storage (h e)) (newStorage ext)))
                 then [\<lparr>Attributes = k,
                        Aggregation = snd (Move m (storage (h e)) (newStorage ext)),
                        Temporality = DeltaTemporality, PtStart = Last sq, PtEnd = Now sq\<rparr>]
                 else [])
          \<and> (dat' k = None \<longleftrightarrow>
               \<not> HasChange m (snd (Move m (storage (h e)) (newStorage ext)))
               \<and> auxiliary (h e) = 0)
          \<and> (dat' k \<noteq> None \<longrightarrow> dat' k = Some e)
          \<and> (0 < sint (auxiliary (h e))
               \<or> HasChange m (snd (Move m (storage (h e)) (newStorage ext)))
              \<longrightarrow> dat' k = Some e)
          \<and> (\<not> HasChange m (snd (Move m (storage (h e)) (newStorage ext))) \<longrightarrow>
               (let appended = Points (snd (appendPoint m ext io k (storage (h e))
                                 DeltaTemporality (Last sq) (Now sq) True));
                    rolled = Points (snd (snd
                               (lowmemorySyncInstrument_Collect_body m ext sq k (dat, h, io))))
                in elems rolled = butlast (elems appended)
                   \<and> length (elems rolled) = length (elems appended) - 1
                   \<and> cap rolled = cap appended)))
    \<and> (\<forall>k. dat k = None \<longrightarrow> dat' k = None)
    \<and> (\<forall>a. a \<notin> ran dat \<longrightarrow> h' a = h a)
    \<and> butlast output' = output"
proof -
  note ks = range_order_facts [OF ro]
  have inj: "inj_on dat (set ks)"
    using sep ks(2) by (rule separate_holders_inj)
  have agree: "\<forall>k\<in>set ks. dat k \<noteq> None \<and> dat k = dat k \<and> h (the (dat k)) = h (the (dat k))"
    using ks(3) by simp
  obtain io' where fold_eq:
    "fold (lowmemorySyncInstrument_Collect_body m ext sq) ks (dat, h, appendInstrument) = (dat', h', io')"
    and out: "output' = output @ [io']"
    using run
    by (auto simp: lowmemorySyncInstrument_Collect_def split: prod.splits)
  from lowmemorySync_fold [OF ks(1) inj agree, where m = m and ext = ext and sq = sq
      and io = appendInstrument] fold_eq
  have A: "\<forall>k. dat' k =
           (if k \<in> set ks
               \<and> \<not> HasChange m (snd (Move m (storage (h (the (dat k)))) (newStorage ext)))
               \<and> auxiliary (h (the (dat k))) = 0
            then None else dat k)"
    and B: "\<forall>a. h' a =
             (if a \<in> (\<lambda>k. the (dat k)) ` set ks
              then (h a)\<lparr>storage := fst (Move m (storage (h a)) (newStorage ext))\<rparr>
              else h a)"
    and C: "elems (Points io') = elems (Points (appendInstrument :: ('a, 'b) Instrument)) @
             map (\<lambda>k. \<lparr>Attributes = k,
                        Aggregation = snd (Move m (storage (h (the (dat k)))) (newStorage ext)),
                        Temporality = DeltaTemporality, PtStart = Last sq, PtEnd = Now sq\<rparr>)
               (filter (\<lambda>k. HasChange m (snd (Move m (storage (h (the (dat k)))) (newStorage ext)))) ks)"
    by simp_all
  have per_key: "storage (h' e) = fst (Move m (storage (h e)) (newStorage ext))
          \<and> auxiliary (h' e) = auxiliary (h e)
          \<and> filter (\<lambda>pt. Attributes pt = k) (elems (Points (last output')))
              = (if HasChange m (snd (Move m (storage (h e)) (newStorage ext)))
                 then [\<lparr>Attributes = k,
                        Aggregation = snd (Move m (storage (h e)) (newStorage ext)),
                        Temporality = DeltaTemporality, PtStart = Last sq, PtEnd = Now sq\<rparr>]
                 else [])
          \<and> (dat' k = None \<longleftrightarrow>
               \<not> HasChange m (snd (Move m (storage (h e)) (newStorage ext)))
               \<and> auxiliary (h e) = 0)
          \<and> (dat' k \<noteq> None \<longrightarrow> dat' k = Some e)
          \<and> (0 < sint (auxiliary (h e))
               \<or> HasChange m (snd (Move m (storage (h e)) (newStorage ext)))
              \<longrightarrow> dat' k = Some e)
          \<and> (\<not> HasChange m (snd (Move m (storage (h e)) (newStorage ext))) \<longrightarrow>
               (let appended = Points (snd (appendPoint m ext io k (storage (h e))
                                 DeltaTemporality (Last sq) (Now sq) True));
                    rolled = Points (snd (snd
                               (lowmemorySyncInstrument_Collect_body m ext sq k (dat, h, io))))
                in elems rolled = butlast (elems appended)
                   \<and> length (elems rolled) = length (elems appended) - 1
                   \<and> cap rolled = cap appended))"
    if e: "dat k = Some e" for k e
  proof -
    have k_in: "k \<in> set ks"
      using e ks(2) by auto
    then have img: "e \<in> (\<lambda>k. the (dat k)) ` set ks"
      using e by force
    have 1: "storage (h' e) = fst (Move m (storage (h e)) (newStorage ext))"
      and 2: "auxiliary (h' e) = auxiliary (h e)"
      using B img by simp_all
    have 3: "filter (\<lambda>pt. Attributes pt = k) (elems (Points (last output')))
              = (if HasChange m (snd (Move m (storage (h e)) (newStorage ext)))
                 then [\<lparr>Attributes = k,
                        Aggregation = snd (Move m (storage (h e)) (newStorage ext)),
                        Temporality = DeltaTemporality, PtStart = Last sq, PtEnd = Now sq\<rparr>]
                 else [])"
      using k_in e
      by (simp add: out C appendInstrument_def filter_key_map_filter [OF ks(1)])
    have 4: "dat' k = None \<longleftrightarrow>
               \<not> HasChange m (snd (Move m (storage (h e)) (newStorage ext)))
               \<and> auxiliary (h e) = 0"
      using A k_in e by simp
    have 5: "dat' k \<noteq> None \<longrightarrow> dat' k = Some e"
      using A e by simp
    have 6: "0 < sint (auxiliary (h e))
               \<or> HasChange m (snd (Move m (storage (h e)) (newStorage ext)))
              \<longrightarrow> dat' k = Some e"
      using A e by auto
    have 7: "\<not> HasChange m (snd (Move m (storage (h e)) (newStorage ext))) \<longrightarrow>
               (let appended = Points (snd (appendPoint m ext io k (storage (h e))
                                 DeltaTemporality (Last sq) (Now sq) True));
                    rolled = Points (snd (snd
                               (lowmemorySyncInstrument_Collect_body m ext sq k (dat, h, io))))
                in elems rolled = butlast (elems appended)
                   \<and> length (elems rolled) = length (elems appended) - 1
                   \<and> cap rolled = cap appended)"
      using e by (simp add: lowmemorySync_body_in appendPoint_move Let_def)
    from 1 2 3 4 5 6 7 show ?thesis
      by blast
  qed
  have gone: "dat' k = None" if "dat k = None" for k
    using A that by simp
  have frame: "h' a = h a" if "a \<notin> ran dat" for a
  proof -
    have "a \<notin> (\<lambda>k. the (dat k)) ` set ks"
    proof
      assume "a \<in> (\<lambda>k. the (dat k)) ` set ks"
      then obtain k where "k \<in> set ks" "a = the (dat k)"
        by auto
      with ks(3) have "dat k = Some a"
        by auto
      with that show False
        by (auto simp: ran_def)
    qed
    with B show ?thesis
      by simp
  qed
  have "butlast output' = output"
    by (simp add: out)
  with per_key gone frame show ?thesis
    by blast
qed

lemma example_sync_range: "range_order [''a'', ''b'', ''c''] example_sync_data"
  by (auto simp: range_order_def example_sync_data_def)

lemma example_sync_separate: "separate_holders example_sync_data"
  by (auto simp: separate_holders_def example_sync_data_def inj_on_def dom_def split: if_splits)

theorem lowmemorySync_Collect_prunes_witness:
  "range_order [''a'', ''b'', ''c''] example_sync_data
   \<and> separate_holders example_sync_data
   \<and> fst (lowmemorySyncInstrument_Collect sum_Methods sum_externals [''a'', ''b'', ''c'']
            example_sync_data example_sync_store example_sequence []) ''a'' = Some 10
   \<and> fst (lowmemorySyncInstrument_Collect sum_Methods sum_externals [''a'', ''b'', ''c'']
            example_sync_data example_sync_store example_sequence []) ''b'' = None
   \<and> fst (lowmemorySyncInstrument_Collect sum_Methods sum_externals [''a'', ''b'', ''c'']
            example_sync_data example_sync_store example_sequence []) ''c'' = Some 12
   \<and> filter (\<lambda>pt. Attributes pt = ''a'')
        (elems (Points (last (snd (snd
          (lowmemorySyncInstrument_Collect sum_Methods sum_externals [''a'', ''b'', ''c'']
             example_sync_data example_sync_store example_sequence []))))))
       = [\<lparr>Attributes = ''a'', Aggregation = 5, Temporality = DeltaTemporality,
            PtStart = 20, PtEnd = 30\<rparr>]
   \<and> filter (\<lambda>pt. Attributes pt = ''c'')
        (elems (Points (last (snd (snd
          (lowmemorySyncInstrument_Collect sum_Methods sum_externals [''a'', ''b'', ''c'']
             example_sync_data example_sync_store example_sequence []))))))
       = []"
proof -
  let ?run = "lowmemorySyncInstrument_Collect sum_Methods sum_externals [''a'', ''b'', ''c'']
            example_sync_data example_sync_store example_sequence []"
  have run: "?run = (fst ?run, fst (snd ?run), snd (snd ?run))"
    by simp
  note all = lowmemorySync_Collect_prunes
    [OF example_sync_range example_sync_separate run, THEN conjunct1, rule_format]
  note points = all [THEN conjunct2, THEN conjunct2, THEN conjunct1]
  note deleted = all [THEN conjunct2, THEN conjunct2, THEN conjunct2, THEN conjunct1]
  note kept = all [THEN conjunct2, THEN conjunct2, THEN conjunct2, THEN conjunct2,
    THEN conjunct2, THEN conjunct1, rule_format]
  have a: "example_sync_data ''a'' = Some 10" and b: "example_sync_data ''b'' = Some 11"
    and c: "example_sync_data ''c'' = Some 12"
    by (simp_all add: example_sync_data_def)
  have vals: "example_sync_store 10 = \<lparr>storage = 5, auxiliary = 0\<rparr>"
    "example_sync_store 11 = \<lparr>storage = 0, auxiliary = 0\<rparr>"
    "example_sync_store 12 = \<lparr>storage = 0, auxiliary = 1\<rparr>"
    by (simp_all add: example_sync_store_def)
  have alg: "HasChange sum_Methods x = (x \<noteq> 0)" for x :: "64 word"
    by (simp add: sum_Methods_def)
  have mv: "snd (Move sum_Methods x y) = x" for x y :: "64 word"
    by (simp add: sum_Methods_def)
  have 1: "fst ?run ''a'' = Some 10"
    using kept [OF a] by (simp add: vals alg mv)
  have 2: "fst ?run ''b'' = None"
    using deleted [OF b] by (simp add: vals alg mv)
  have 3: "fst ?run ''c'' = Some 12"
    using kept [OF c] by (simp add: vals alg mv)
  have 4: "filter (\<lambda>pt. Attributes pt = ''a'') (elems (Points (last (snd (snd ?run)))))
       = [\<lparr>Attributes = ''a'', Aggregation = 5, Temporality = DeltaTemporality,
            PtStart = 20, PtEnd = 30\<rparr>]"
    using points [OF a] by (simp add: vals alg mv example_sequence_def)
  have 5: "filter (\<lambda>pt. Attributes pt = ''c'') (elems (Points (last (snd (snd ?run))))) = []"
    using points [OF c] by (simp add: vals alg mv example_sequence_def)
  from example_sync_range example_sync_separate 1 2 3 4 5 show ?thesis
    by blast
qed

section \<open>Low-memory asynchronous Collect\<close>

lemma filter_key_map:
  assumes "distinct ks" and "\<And>k'. key (f k') = k'"
  shows "filter (\<lambda>x. key x = k) (map f ks) = (if k \<in> set ks then [f k] else [])"
  using filter_key_map_filter [OF assms(1), of key f k "\<lambda>_. True"] assms(2)
  by simp

text \<open>
  Claim C8. \<open>Collect\<close> of the low-memory asynchronous instrument emits every entry of
  the map as it is (a copy: the store is unchanged), with cumulative temporality and
  the time range from \<open>Start\<close> to \<open>Now\<close>, one point per key in the order of the
  iteration, and returns the empty map whatever the map held before.
\<close>

theorem lowmemoryAsync_Collect_resets:
  assumes ro: "range_order ks dat"
    and run: "lowmemoryAsyncInstrument_Collect m ext ks dat h sq output = (dat', h', output')"
  shows "dat' = Map.empty
    \<and> card (dom dat') = 0
    \<and> h' = h
    \<and> butlast output' = output
    \<and> elems (Points (last output'))
        = map (\<lambda>k. \<lparr>Attributes = k,
                     Aggregation = Copy m (storage (h (the (dat k)))) (newStorage ext),
                     Temporality = CumulativeTemporality, PtStart = Start sq, PtEnd = Now sq\<rparr>) ks
    \<and> (\<forall>k e. dat k = Some e \<longrightarrow>
          filter (\<lambda>pt. Attributes pt = k) (elems (Points (last output')))
            = [\<lparr>Attributes = k, Aggregation = Copy m (storage (h e)) (newStorage ext),
                Temporality = CumulativeTemporality, PtStart = Start sq, PtEnd = Now sq\<rparr>])"
proof -
  note ks = range_order_facts [OF ro]
  have sub: "set ks \<subseteq> dom dat"
    using ks(2) by simp
  note fold_eq = lowmemoryAsync_fold [OF sub, where m = m and ext = ext and sq = sq and h = h
      and io = appendInstrument]
  from run have dat': "dat' = Map.empty"
    and h': "h' = h"
    and out: "output' = output @
        [snd (fold (lowmemoryAsyncInstrument_Collect_body m ext sq dat) ks (h, appendInstrument))]"
    using fold_eq
    by (auto simp: lowmemoryAsyncInstrument_Collect_def split: prod.splits)
  have pts: "elems (Points (last output'))
        = map (\<lambda>k. \<lparr>Attributes = k,
                     Aggregation = Copy m (storage (h (the (dat k)))) (newStorage ext),
                     Temporality = CumulativeTemporality, PtStart = Start sq, PtEnd = Now sq\<rparr>) ks"
    using fold_eq by (simp add: out appendInstrument_def)
  have one: "filter (\<lambda>pt. Attributes pt = k) (elems (Points (last output')))
            = [\<lparr>Attributes = k, Aggregation = Copy m (storage (h e)) (newStorage ext),
                Temporality = CumulativeTemporality, PtStart = Start sq, PtEnd = Now sq\<rparr>]"
    if "dat k = Some e" for k e
  proof -
    have "k \<in> set ks"
      using that ks(2) by auto
    then show ?thesis
      using that by (simp add: pts filter_key_map [OF ks(1)])
  qed
  have "butlast output' = output"
    by (simp add: out)
  with dat' h' pts one show ?thesis
    by simp
qed

lemma example_async_range: "range_order [''b'', ''a''] example_async_data"
  by (auto simp: range_order_def example_async_data_def)

theorem lowmemoryAsync_Collect_resets_witness:
  "range_order [''b'', ''a''] example_async_data
   \<and> card (dom (fst (lowmemoryAsyncInstrument_Collect sum_Methods sum_externals [''b'', ''a'']
                       example_async_data example_async_store example_sequence []))) = 0
   \<and> elems (Points (last (snd (snd
        (lowmemoryAsyncInstrument_Collect sum_Methods sum_externals [''b'', ''a'']
           example_async_data example_async_store example_sequence [])))))
       = [\<lparr>Attributes = ''b'', Aggregation = 9, Temporality = CumulativeTemporality,
            PtStart = 10, PtEnd = 30\<rparr>,
          \<lparr>Attributes = ''a'', Aggregation = 7, Temporality = CumulativeTemporality,
            PtStart = 10, PtEnd = 30\<rparr>]"
proof -
  let ?run = "lowmemoryAsyncInstrument_Collect sum_Methods sum_externals [''b'', ''a'']
                example_async_data example_async_store example_sequence []"
  have run: "?run = (fst ?run, fst (snd ?run), snd (snd ?run))"
    by simp
  note all = lowmemoryAsync_Collect_resets [OF example_async_range run]
  note empty = all [THEN conjunct2, THEN conjunct1]
  note pts = all [THEN conjunct2, THEN conjunct2, THEN conjunct2, THEN conjunct2, THEN conjunct1]
  have vals: "storage (example_async_store (the (example_async_data ''a''))) = 7"
    "storage (example_async_store (the (example_async_data ''b''))) = 9"
    by (simp_all add: example_async_store_def example_async_data_def)
  have cp: "Copy sum_Methods x y = x" for x y :: "64 word"
    by (simp add: sum_Methods_def)
  have "elems (Points (last (snd (snd ?run))))
       = [\<lparr>Attributes = ''b'', Aggregation = 9, Temporality = CumulativeTemporality,
            PtStart = 10, PtEnd = 30\<rparr>,
          \<lparr>Attributes = ''a'', Aggregation = 7, Temporality = CumulativeTemporality,
            PtStart = 10, PtEnd = 30\<rparr>]"
    unfolding pts by (simp add: vals cp example_sequence_def)
  with example_async_range empty show ?thesis
    by blast
qed

section \<open>Synchronous accumulators and the stateful synchronous Collect\<close>

lemma sum_list_word_update:
  fixes xs :: "64 word list"
  assumes "i < length xs"
  shows "sum_list (xs[i := y]) = sum_list xs - xs ! i + y"
  using assms
proof (induction xs arbitrary: i)
  case Nil
  then show ?case by simp
next
  case (Cons x xs)
  then show ?case
    by (cases i) simp_all
qed

lemma run_call_inv:
  assumes inv: "calls_inv n e s aux v past st"
    and idx: "call_index c < n"
  shows "calls_inv n e s aux v (past @ [c]) (run_call sum_Methods v ex c st)"
proof -
  obtain accs h where st: "st = (accs, h)"
    by (cases st)
  from inv st have len: "length accs = n"
    and hold: "\<forall>a\<in>set accs. holder a = e"
    and tot: "storage (h e) + sum_list (map current accs)
            = s + of_nat (length (filter (\<lambda>c. \<exists>i. c = UpdateCall i) past)) * v"
    and refs: "auxiliary (h e) = aux - of_nat (length (filter (\<lambda>c. \<exists>i. c = SnapshotCall i) past))"
    and zero: "\<forall>i<n. (filter (\<lambda>c. call_index c = i) past = []
                   \<or> last (filter (\<lambda>c. call_index c = i) past) = SnapshotCall i)
                  \<longrightarrow> current (accs ! i) = 0"
    by (simp_all add: calls_inv_def)
  show ?thesis
  proof (cases c)
    case (UpdateCall i)
    with idx len have i: "i < length accs"
      by simp
    have hi: "holder (accs ! i) = e"
      using hold i by simp
    let ?a = "syncAccumulator_Update sum_Methods (accs ! i) v ex"
    have a: "current ?a = current (accs ! i) + v" "holder ?a = e"
      using hi by (simp_all add: syncAccumulator_Update_def sum_Methods_def)
    have res: "run_call sum_Methods v ex c st = (accs[i := ?a], h)"
      by (simp add: run_call_def st UpdateCall)
    have sum: "sum_list (map current (accs[i := ?a])) = sum_list (map current accs) + v"
      using i a(1) by (simp add: map_update sum_list_word_update)
    have hold': "\<forall>b\<in>set (accs[i := ?a]). holder b = e"
      using hold a(2) by (auto dest!: subsetD [OF set_update_subset_insert])
    have zero': "\<forall>j<n. (filter (\<lambda>c. call_index c = j) (past @ [c]) = []
                   \<or> last (filter (\<lambda>c. call_index c = j) (past @ [c])) = SnapshotCall j)
                  \<longrightarrow> current (accs[i := ?a] ! j) = 0"
      using zero i len by (auto simp: UpdateCall nth_list_update)
    have cnt: "length (filter (\<lambda>c. \<exists>i. c = UpdateCall i) (past @ [c]))
                 = Suc (length (filter (\<lambda>c. \<exists>i. c = UpdateCall i) past))"
      "length (filter (\<lambda>c. \<exists>i. c = SnapshotCall i) (past @ [c]))
                 = length (filter (\<lambda>c. \<exists>i. c = SnapshotCall i) past)"
      by (simp_all add: UpdateCall)
    have tot': "storage (h e) + sum_list (map current (accs[i := ?a]))
            = s + of_nat (Suc (length (filter (\<lambda>c. \<exists>i. c = UpdateCall i) past))) * v"
      using tot sum by (simp add: algebra_simps)
    have len': "length (accs[i := ?a]) = n"
      using len by simp
    show ?thesis
      unfolding calls_inv_def res prod.case cnt
      using len' hold' tot' refs zero' by blast
  next
    case (SnapshotCall i)
    with idx len have i: "i < length accs"
      by simp
    have hi: "holder (accs ! i) = e"
      using hold i by simp
    let ?a = "(accs ! i)\<lparr>current := 0, snapshot := current (accs ! i)\<rparr>"
    let ?h = "h(e := (h e)\<lparr>storage := storage (h e) + current (accs ! i),
                      auxiliary := auxiliary (h e) - 1\<rparr>)"
    have snap: "syncAccumulator_SnapshotAndProcess sum_Methods (accs ! i) True h = (?a, ?h)"
      using hi by (simp add: syncAccumulator_SnapshotAndProcess_def sum_Methods_def Let_def)
    have res: "run_call sum_Methods v ex c st = (accs[i := ?a], ?h)"
      by (simp add: run_call_def st SnapshotCall snap)
    have sum: "sum_list (map current (accs[i := ?a])) = sum_list (map current accs) - current (accs ! i)"
      using i by (simp add: map_update sum_list_word_update)
    have hold': "\<forall>b\<in>set (accs[i := ?a]). holder b = e"
      using hold hi by (auto dest!: subsetD [OF set_update_subset_insert])
    have zero': "\<forall>j<n. (filter (\<lambda>c. call_index c = j) (past @ [c]) = []
                   \<or> last (filter (\<lambda>c. call_index c = j) (past @ [c])) = SnapshotCall j)
                  \<longrightarrow> current (accs[i := ?a] ! j) = 0"
      using zero i len by (auto simp: SnapshotCall nth_list_update)
    have cnt: "length (filter (\<lambda>c. \<exists>i. c = UpdateCall i) (past @ [c]))
                 = length (filter (\<lambda>c. \<exists>i. c = UpdateCall i) past)"
      "length (filter (\<lambda>c. \<exists>i. c = SnapshotCall i) (past @ [c]))
                 = Suc (length (filter (\<lambda>c. \<exists>i. c = SnapshotCall i) past))"
      by (simp_all add: SnapshotCall)
    have tot': "storage (?h e) + sum_list (map current (accs[i := ?a]))
            = s + of_nat (length (filter (\<lambda>c. \<exists>i. c = UpdateCall i) past)) * v"
      using tot sum by (simp add: algebra_simps)
    have refs': "auxiliary (?h e)
            = aux - of_nat (Suc (length (filter (\<lambda>c. \<exists>i. c = SnapshotCall i) past)))"
      using refs by (simp add: algebra_simps)
    have len': "length (accs[i := ?a]) = n"
      using len by simp
    show ?thesis
      unfolding calls_inv_def res prod.case cnt
      using len' hold' tot' refs' zero' by blast
  qed
qed

lemma run_calls_inv:
  assumes "calls_inv n e s aux v [] st"
    and "\<forall>c\<in>set sched. call_index c < n"
  shows "calls_inv n e s aux v sched (run_calls sum_Methods v ex sched st)"
  using assms(2)
proof (induction sched rule: rev_induct)
  case Nil
  then show ?case
    using assms(1) by (simp add: run_calls_def)
next
  case (snoc c sched)
  then have "calls_inv n e s aux v sched (run_calls sum_Methods v ex sched st)"
    and "call_index c < n"
    by simp_all
  then have "calls_inv n e s aux v (sched @ [c])
      (run_call sum_Methods v ex c (run_calls sum_Methods v ex sched st))"
    by (rule run_call_inv)
  then show ?case
    by (simp add: run_calls_def)
qed

lemma length_filter_by_index:
  assumes "\<forall>c\<in>set xs. idx c < (n :: nat)"
  shows "length (filter P xs) = (\<Sum>i<n. length (filter P (filter (\<lambda>c. idx c = i) xs)))"
  using assms
proof (induction xs)
  case Nil
  then show ?case by simp
next
  case (Cons c xs)
  then have IH: "length (filter P xs) = (\<Sum>i<n. length (filter P (filter (\<lambda>c. idx c = i) xs)))"
    and c: "idx c < n"
    by simp_all
  have "(\<Sum>i<n. length (filter P (filter (\<lambda>c. idx c = i) (c # xs))))
      = (\<Sum>i<n. length (filter P (filter (\<lambda>c. idx c = i) xs)) + (if i = idx c \<and> P c then 1 else 0))"
    by (rule sum.cong) auto
  also have "\<dots> = (\<Sum>i<n. length (filter P (filter (\<lambda>c. idx c = i) xs)))
      + (\<Sum>i<n. if i = idx c \<and> P c then 1 else 0)"
    by (simp add: sum.distrib)
  also have "(\<Sum>i<n. if i = idx c \<and> P c then 1 else 0) = (if P c then 1 else (0 :: nat))"
    using c by (cases "P c") (simp_all add: sum.delta)
  finally show ?case
    using IH by simp
qed

lemma update_then_snapshot_counts:
  assumes "update_then_snapshot n sched"
  shows "length (filter (\<lambda>c. \<exists>i. c = UpdateCall i) sched) = n"
    and "length (filter (\<lambda>c. \<exists>i. c = SnapshotCall i) sched) = n"
proof -
  from assms have idx: "\<forall>c\<in>set sched. call_index c < n"
    and each: "\<forall>i<n. filter (\<lambda>c. call_index c = i) sched = [UpdateCall i, SnapshotCall i]"
    by (simp_all add: update_then_snapshot_def)
  have "length (filter (\<lambda>c. \<exists>i. c = UpdateCall i) sched)
      = (\<Sum>i<n. length (filter (\<lambda>c. \<exists>i. c = UpdateCall i) (filter (\<lambda>c. call_index c = i) sched)))"
    using idx by (rule length_filter_by_index)
  also have "\<dots> = (\<Sum>i<n. 1)"
    by (rule sum.cong) (simp_all add: each)
  finally show "length (filter (\<lambda>c. \<exists>i. c = UpdateCall i) sched) = n"
    by simp
  have "length (filter (\<lambda>c. \<exists>i. c = SnapshotCall i) sched)
      = (\<Sum>i<n. length (filter (\<lambda>c. \<exists>i. c = SnapshotCall i) (filter (\<lambda>c. call_index c = i) sched)))"
    using idx by (rule length_filter_by_index)
  also have "\<dots> = (\<Sum>i<n. 1)"
    by (rule sum.cong) (simp_all add: each)
  finally show "length (filter (\<lambda>c. \<exists>i. c = SnapshotCall i) sched) = n"
    by simp
qed

lemma sum_list_all_zero:
  assumes "\<forall>x\<in>set xs. f x = (0 :: 64 word)"
  shows "sum_list (map f xs) = 0"
  using assms by (induction xs) simp_all

lemma statefulSync_body_in:
  assumes "dat k = Some e"
  shows "statefulSyncInstrument_Collect_body m ext sq dat k (h, io) =
    (h, io\<lparr>Points := append_slice (growslice ext) (Points io)
        \<lparr>Attributes = k, Aggregation = Copy m (storage (h e)) (newStorage ext),
         Temporality = CumulativeTemporality, PtStart = Start sq, PtEnd = Now sq\<rparr>\<rparr>)"
  using assms by (simp add: statefulSyncInstrument_Collect_body_def appendPoint_copy)

lemma statefulSync_fold:
  assumes "set ks \<subseteq> dom dat"
  shows "fst (fold (statefulSyncInstrument_Collect_body m ext sq dat) ks (h, io)) = h
    \<and> elems (Points (snd (fold (statefulSyncInstrument_Collect_body m ext sq dat) ks (h, io))))
        = elems (Points io) @
          map (\<lambda>k. \<lparr>Attributes = k,
                     Aggregation = Copy m (storage (h (the (dat k)))) (newStorage ext),
                     Temporality = CumulativeTemporality, PtStart = Start sq, PtEnd = Now sq\<rparr>) ks"
  using assms
proof (induction ks arbitrary: io)
  case Nil
  then show ?case by simp
next
  case (Cons k ks)
  then obtain e where e: "dat k = Some e"
    by auto
  from Cons.prems have "set ks \<subseteq> dom dat"
    by simp
  note IH = Cons.IH [OF this]
  show ?case
    using e by (simp add: statefulSync_body_in IH)
qed

lemma statefulSync_Collect_points:
  assumes ro: "range_order ks dat"
    and run: "statefulSyncInstrument_Collect m ext ks dat h sq output = (h', output')"
  shows "h' = h"
    and "butlast output' = output"
    and "elems (Points (last output'))
        = map (\<lambda>k. \<lparr>Attributes = k,
                     Aggregation = Copy m (storage (h (the (dat k)))) (newStorage ext),
                     Temporality = CumulativeTemporality, PtStart = Start sq, PtEnd = Now sq\<rparr>) ks"
proof -
  have sub: "set ks \<subseteq> dom dat"
    using ro by (simp add: range_order_def)
  note fold_eq = statefulSync_fold [OF sub, where m = m and ext = ext and sq = sq and h = h
      and io = appendInstrument]
  from run have h': "h' = h"
    and out: "output' = output @
        [snd (fold (statefulSyncInstrument_Collect_body m ext sq dat) ks (h, appendInstrument))]"
    using fold_eq
    by (auto simp: statefulSyncInstrument_Collect_def split: prod.splits)
  show "h' = h"
    by (rule h')
  show "butlast output' = output"
    by (simp add: out)
  show "elems (Points (last output'))
        = map (\<lambda>k. \<lparr>Attributes = k,
                     Aggregation = Copy m (storage (h (the (dat k)))) (newStorage ext),
                     Temporality = CumulativeTemporality, PtStart = Start sq, PtEnd = Now sq\<rparr>) ks"
    using fold_eq by (simp add: out appendInstrument_def)
qed

text \<open>
  Claim C4. No lost updates: \<open>n\<close> accumulators are bound to the holder of the same
  attribute set \<open>k\<close> and are fresh; each makes one \<^verbatim>\<open>Update\<close> with the value \<open>v\<close> and
  then one \<^verbatim>\<open>SnapshotAndProcess(true)\<close>, in any interleaving; then the stateful
  synchronous \<open>Collect\<close> runs. Over the sum algebra the output has exactly one point for
  \<open>k\<close>, and it reports the holder's former total plus \<open>n * v\<close> (for a new holder,
  whose total is zero, \<open>n * v\<close>). Every accumulator is left with an empty buffer, so
  nothing can be merged a second time, and the reference count has gone down by \<open>n\<close>.
\<close>

theorem no_lost_updates:
  assumes ro: "range_order ks dat"
    and k: "dat k = Some e"
    and fresh: "\<forall>a\<in>set accs. holder a = e \<and> current a = 0"
    and sched: "update_then_snapshot (length accs) sched"
    and calls: "run_calls sum_Methods v ex sched (accs, h) = (accs', h')"
    and collect: "statefulSyncInstrument_Collect sum_Methods ext ks dat h' sq output = (h'', output')"
  shows "filter (\<lambda>pt. Attributes pt = k) (elems (Points (last output')))
           = [\<lparr>Attributes = k, Aggregation = storage (h e) + of_nat (length accs) * v,
               Temporality = CumulativeTemporality, PtStart = Start sq, PtEnd = Now sq\<rparr>]
    \<and> storage (h'' e) = storage (h e) + of_nat (length accs) * v
    \<and> auxiliary (h'' e) = auxiliary (h e) - of_nat (length accs)
    \<and> (\<forall>a\<in>set accs'. current a = 0 \<and> holder a = e)"
proof -
  let ?n = "length accs"
  have idx: "\<forall>c\<in>set sched. call_index c < ?n"
    and each: "\<forall>i<?n. filter (\<lambda>c. call_index c = i) sched = [UpdateCall i, SnapshotCall i]"
    using sched by (simp_all add: update_then_snapshot_def)
  have "sum_list (map current accs) = 0"
    using fresh by (intro sum_list_all_zero) simp
  then have init: "calls_inv ?n e (storage (h e)) (auxiliary (h e)) v [] (accs, h)"
    using fresh by (simp add: calls_inv_def)
  have "calls_inv ?n e (storage (h e)) (auxiliary (h e)) v sched
          (run_calls sum_Methods v ex sched (accs, h))"
    using init idx by (rule run_calls_inv)
  then have inv: "calls_inv ?n e (storage (h e)) (auxiliary (h e)) v sched (accs', h')"
    by (simp add: calls)
  note counts = update_then_snapshot_counts [OF sched]
  from inv have len: "length accs' = ?n"
    and hold: "\<forall>a\<in>set accs'. holder a = e"
    and tot: "storage (h' e) + sum_list (map current accs') = storage (h e) + of_nat ?n * v"
    and refs: "auxiliary (h' e) = auxiliary (h e) - of_nat ?n"
    and zero: "\<forall>i<?n. current (accs' ! i) = 0"
    by (simp_all add: calls_inv_def counts each)
  have cur: "\<forall>a\<in>set accs'. current a = 0"
    using zero len by (auto simp: in_set_conv_nth)
  then have "sum_list (map current accs') = 0"
    by (rule sum_list_all_zero)
  with tot have st: "storage (h' e) = storage (h e) + of_nat ?n * v"
    by simp
  note pts = statefulSync_Collect_points [OF ro collect]
  have k_in: "k \<in> set ks"
    using ro k by (auto simp: range_order_def)
  have dist: "distinct ks"
    using ro by (simp add: range_order_def)
  have "filter (\<lambda>pt. Attributes pt = k) (elems (Points (last output')))
           = [\<lparr>Attributes = k, Aggregation = storage (h e) + of_nat ?n * v,
               Temporality = CumulativeTemporality, PtStart = Start sq, PtEnd = Now sq\<rparr>]"
    using k_in k st
    by (simp add: pts(3) filter_key_map [OF dist] sum_Methods_def)
  with st refs cur hold pts(1) show ?thesis
    by simp
qed

theorem no_lost_updates_witness:
  "range_order [''a''] example_counter_data
   \<and> example_counter_data ''a'' = Some 20
   \<and> map holder example_accumulators = [20, 20]
   \<and> map current example_accumulators = [0, 0]
   \<and> update_then_snapshot (length example_accumulators) example_schedule
   \<and> filter (\<lambda>pt. Attributes pt = ''a'')
        (elems (Points (last (snd
          (statefulSyncInstrument_Collect sum_Methods sum_externals [''a''] example_counter_data
             (snd (run_calls sum_Methods 3 () example_schedule
                     (example_accumulators, example_counter_store)))
             example_sequence [])))))
       = [\<lparr>Attributes = ''a'', Aggregation = 6, Temporality = CumulativeTemporality,
            PtStart = 10, PtEnd = 30\<rparr>]"
proof -
  let ?calls = "run_calls sum_Methods 3 () example_schedule
                     (example_accumulators, example_counter_store)"
  let ?collect = "statefulSyncInstrument_Collect sum_Methods sum_externals [''a'']
                    example_counter_data (snd ?calls) example_sequence []"
  have ro: "range_order [''a''] example_counter_data"
    by (auto simp: range_order_def example_counter_data_def)
  have k: "example_counter_data ''a'' = Some 20"
    by (simp add: example_counter_data_def)
  have fresh: "\<forall>a\<in>set example_accumulators. holder a = 20 \<and> current a = 0"
    by (simp add: example_accumulators_def)
  have sched: "update_then_snapshot (length example_accumulators) example_schedule"
    by (auto simp: update_then_snapshot_def example_accumulators_def example_schedule_def
        less_Suc_eq)
  have calls: "?calls = (fst ?calls, snd ?calls)"
    by simp
  have collect: "?collect = (fst ?collect, snd ?collect)"
    by simp
  note pts = no_lost_updates [OF ro k fresh sched calls collect, THEN conjunct1]
  have "filter (\<lambda>pt. Attributes pt = ''a'') (elems (Points (last (snd ?collect))))
       = [\<lparr>Attributes = ''a'', Aggregation = 6, Temporality = CumulativeTemporality,
            PtStart = 10, PtEnd = 30\<rparr>]"
    unfolding pts
    by (simp add: example_counter_store_def example_accumulators_def example_sequence_def)
  moreover have "map holder example_accumulators = [20, 20]"
    and "map current example_accumulators = [0, 0]"
    by (simp_all add: example_accumulators_def)
  ultimately show ?thesis
    using ro k sched by blast
qed

section \<open>Stateful asynchronous Collect\<close>

lemma statefulAsync_body_found:
  assumes "data p k = Some e" and "prior p k = Some pv" and "pv \<noteq> e"
  shows "statefulAsyncInstrument_Collect_body m ext sq p k (h, io, ofe) =
    (h(pv := (h pv)\<lparr>storage := fst (SubtractSwap m (storage (h pv)) (storage (h e)))\<rparr>,
       e := (h e)\<lparr>storage := snd (SubtractSwap m (storage (h pv)) (storage (h e)))\<rparr>),
     (if HasChange m (fst (SubtractSwap m (storage (h pv)) (storage (h e))))
      then io\<lparr>Points := append_slice (growslice ext) (Points io)
             \<lparr>Attributes = k,
              Aggregation = Copy m (fst (SubtractSwap m (storage (h pv)) (storage (h e))))
                              (newStorage ext),
              Temporality = DeltaTemporality, PtStart = Last sq, PtEnd = Now sq\<rparr>\<rparr>
      else io),
     (if k = OverflowAttributeSet ext then Some e else ofe))"
  using assms
  by (auto simp: statefulAsyncInstrument_Collect_body_def appendPoint_copy Let_def fun_eq_iff
      split: prod.splits)

lemma statefulAsync_body_new:
  assumes "data p k = Some e" and "prior p k = None"
  shows "statefulAsyncInstrument_Collect_body m ext sq p k (h, io, ofe) =
    (h,
     io\<lparr>Points := append_slice (growslice ext) (Points io)
          \<lparr>Attributes = k, Aggregation = Copy m (storage (h e)) (newStorage ext),
           Temporality = DeltaTemporality, PtStart = Last sq, PtEnd = Now sq\<rparr>\<rparr>,
     (if k = OverflowAttributeSet ext then Some e else ofe))"
  using assms
  by (simp add: statefulAsyncInstrument_Collect_body_def appendPoint_copy Let_def)

lemma statefulAsync_body_step:
  assumes e: "data p k = Some e" and ne: "prior p k \<noteq> Some e"
    and step: "statefulAsyncInstrument_Collect_body m ext sq p k (h, io, ofe) = (h1, io1, ofe1)"
  shows "storage (h1 e) = statefulAsync_scanned m p h k"
    and "\<forall>pv. prior p k = Some pv \<longrightarrow>
           storage (h1 pv) = fst (SubtractSwap m (storage (h pv)) (storage (h e)))"
    and "\<forall>a. a \<noteq> e \<and> prior p k \<noteq> Some a \<longrightarrow> h1 a = h a"
    and "elems (Points io1) = elems (Points io) @ statefulAsync_emitted m ext sq p h k"
    and "ofe1 = (if k = OverflowAttributeSet ext then Some e else ofe)"
proof -
  show "storage (h1 e) = statefulAsync_scanned m p h k"
    using e ne step
    by (cases "prior p k")
      (auto simp: statefulAsync_body_new statefulAsync_body_found statefulAsync_scanned_def)
  show "\<forall>pv. prior p k = Some pv \<longrightarrow>
           storage (h1 pv) = fst (SubtractSwap m (storage (h pv)) (storage (h e)))"
    using e ne step
    by (cases "prior p k") (auto simp: statefulAsync_body_new statefulAsync_body_found)
  show "\<forall>a. a \<noteq> e \<and> prior p k \<noteq> Some a \<longrightarrow> h1 a = h a"
    using e ne step
    by (cases "prior p k") (auto simp: statefulAsync_body_new statefulAsync_body_found)
  show "elems (Points io1) = elems (Points io) @ statefulAsync_emitted m ext sq p h k"
    using e ne step
    by (cases "prior p k")
      (auto simp: statefulAsync_body_new statefulAsync_body_found statefulAsync_emitted_def
        Let_def split: if_splits)
  show "ofe1 = (if k = OverflowAttributeSet ext then Some e else ofe)"
    using e ne step
    by (cases "prior p k") (auto simp: statefulAsync_body_new statefulAsync_body_found)
qed

lemma statefulAsync_scanned_cong:
  assumes e: "data p k = Some e"
    and same: "\<forall>a. data p k = Some a \<or> prior p k = Some a \<longrightarrow> h a = g a"
  shows "statefulAsync_scanned m p h k = statefulAsync_scanned m p g k"
proof -
  have he: "h e = g e"
    using e same by simp
  show ?thesis
  proof (cases "prior p k")
    case None
    then show ?thesis
      using e he by (simp add: statefulAsync_scanned_def)
  next
    case (Some pv)
    then have "h pv = g pv"
      using same by simp
    then show ?thesis
      using e he Some by (simp add: statefulAsync_scanned_def)
  qed
qed

lemma statefulAsync_emitted_cong:
  assumes e: "data p k = Some e"
    and same: "\<forall>a. data p k = Some a \<or> prior p k = Some a \<longrightarrow> h a = g a"
  shows "statefulAsync_emitted m ext sq p h k = statefulAsync_emitted m ext sq p g k"
proof -
  have he: "h e = g e"
    using e same by simp
  show ?thesis
  proof (cases "prior p k")
    case None
    then show ?thesis
      using e he by (simp add: statefulAsync_emitted_def)
  next
    case (Some pv)
    then have "h pv = g pv"
      using same by simp
    then show ?thesis
      using e he Some by (simp add: statefulAsync_emitted_def)
  qed
qed

lemma statefulAsync_fold:
  assumes dist: "distinct ks"
    and dom: "\<forall>k\<in>set ks. data p k \<noteq> None"
    and sepd: "\<forall>k\<in>set ks. \<forall>k'\<in>set ks. \<forall>a. data p k = Some a \<longrightarrow>
                 prior p k' \<noteq> Some a \<and> (k' \<noteq> k \<longrightarrow> data p k' \<noteq> Some a)"
    and sepp: "\<forall>k\<in>set ks. \<forall>k'\<in>set ks. \<forall>a. prior p k = Some a \<longrightarrow>
                 (k' \<noteq> k \<longrightarrow> prior p k' \<noteq> Some a)"
    and agree: "\<forall>k\<in>set ks. \<forall>a. data p k = Some a \<or> prior p k = Some a \<longrightarrow> h a = g a"
  shows "case fold (statefulAsyncInstrument_Collect_body m ext sq p) ks (h, io, ofe) of
      (h', io', ofe') \<Rightarrow>
        (\<forall>k\<in>set ks. \<forall>e. data p k = Some e \<longrightarrow>
            storage (h' e) = statefulAsync_scanned m p g k)
        \<and> (\<forall>k\<in>set ks. \<forall>pv. prior p k = Some pv \<longrightarrow>
              storage (h' pv)
                = fst (SubtractSwap m (storage (g pv)) (storage (g (the (data p k))))))
        \<and> (\<forall>a. (\<forall>k\<in>set ks. data p k \<noteq> Some a \<and> prior p k \<noteq> Some a) \<longrightarrow> h' a = h a)
        \<and> elems (Points io') =
             elems (Points io) @ concat (map (statefulAsync_emitted m ext sq p g) ks)
        \<and> ofe' = (if OverflowAttributeSet ext \<in> set ks
                   then data p (OverflowAttributeSet ext) else ofe)"
  using assms
proof (induction ks arbitrary: h io ofe)
  case Nil
  show ?case by simp
next
  case (Cons k ks)
  from Cons.prems(2) obtain e where e: "data p k = Some e"
    by auto
  have ne: "prior p k \<noteq> Some e"
    using Cons.prems(3) [rule_format, of k k e] e by simp
  have k_notin: "k \<notin> set ks" and dist: "distinct ks"
    using Cons.prems(1) by simp_all
  have agree_k: "\<forall>a. data p k = Some a \<or> prior p k = Some a \<longrightarrow> h a = g a"
    using Cons.prems(5) by simp
  obtain h1 io1 ofe1 where step:
    "statefulAsyncInstrument_Collect_body m ext sq p k (h, io, ofe) = (h1, io1, ofe1)"
    by (cases "statefulAsyncInstrument_Collect_body m ext sq p k (h, io, ofe)")
  note body = statefulAsync_body_step [OF e ne step]
  have h1e: "storage (h1 e) = statefulAsync_scanned m p g k"
    using body(1) statefulAsync_scanned_cong [OF e agree_k] by simp
  have h1p: "\<forall>pv. prior p k = Some pv \<longrightarrow>
      storage (h1 pv) = fst (SubtractSwap m (storage (g pv)) (storage (g (the (data p k)))))"
    using body(2) agree_k e by auto
  have io1: "elems (Points io1) = elems (Points io) @ statefulAsync_emitted m ext sq p g k"
    using body(4) statefulAsync_emitted_cong [OF e agree_k] by simp
  have dom': "\<forall>k\<in>set ks. data p k \<noteq> None"
    using Cons.prems(2) by simp
  note sd = Cons.prems(3) [rule_format]
  note sp = Cons.prems(4) [rule_format]
  have sepd': "\<forall>k\<in>set ks. \<forall>k'\<in>set ks. \<forall>a. data p k = Some a \<longrightarrow>
                 prior p k' \<noteq> Some a \<and> (k' \<noteq> k \<longrightarrow> data p k' \<noteq> Some a)"
  proof (intro ballI allI impI)
    fix ka kb a
    assume "ka \<in> set ks" and "kb \<in> set ks" and "data p ka = Some a"
    then show "prior p kb \<noteq> Some a \<and> (kb \<noteq> ka \<longrightarrow> data p kb \<noteq> Some a)"
      using sd [of ka kb a] by simp
  qed
  have sepp': "\<forall>k\<in>set ks. \<forall>k'\<in>set ks. \<forall>a. prior p k = Some a \<longrightarrow>
                 (k' \<noteq> k \<longrightarrow> prior p k' \<noteq> Some a)"
  proof (intro ballI allI impI)
    fix ka kb a
    assume "ka \<in> set ks" and "kb \<in> set ks" and "prior p ka = Some a" and "kb \<noteq> ka"
    then show "prior p kb \<noteq> Some a"
      using sp [of ka kb a] by simp
  qed
  have untouched: "a \<noteq> e \<and> prior p k \<noteq> Some a"
    if "k' \<in> set ks" and "data p k' = Some a \<or> prior p k' = Some a" for k' a
  proof -
    have kk: "k' \<noteq> k"
      using that(1) k_notin by auto
    have in1: "k \<in> set (k # ks)" and in2: "k' \<in> set (k # ks)"
      using that(1) by simp_all
    from that(2) show ?thesis
    proof
      assume d: "data p k' = Some a"
      have "data p k' \<noteq> Some e"
        using sd [OF in1 in2 e] kk by simp
      with d have "a \<noteq> e"
        by auto
      moreover have "prior p k \<noteq> Some a"
        using sd [OF in2 in1 d] by simp
      ultimately show ?thesis by simp
    next
      assume pr: "prior p k' = Some a"
      have "prior p k' \<noteq> Some e"
        using sd [OF in1 in2 e] by simp
      with pr have "a \<noteq> e"
        by auto
      moreover have "prior p k \<noteq> Some a"
        using sp [OF in2 in1 pr] kk by auto
      ultimately show ?thesis by simp
    qed
  qed
  have agree': "\<forall>k\<in>set ks. \<forall>a. data p k = Some a \<or> prior p k = Some a \<longrightarrow> h1 a = g a"
  proof (intro ballI allI impI)
    fix k' a
    assume k': "k' \<in> set ks" and a: "data p k' = Some a \<or> prior p k' = Some a"
    from untouched [OF k' a] body(3) have "h1 a = h a"
      by simp
    moreover have "k' \<in> set (k # ks)"
      using k' by simp
    from Cons.prems(5) [rule_format, OF this a] have "h a = g a" .
    ultimately show "h1 a = g a"
      by simp
  qed
  obtain h' io' ofe' where res:
    "fold (statefulAsyncInstrument_Collect_body m ext sq p) ks (h1, io1, ofe1) = (h', io', ofe')"
    by (cases "fold (statefulAsyncInstrument_Collect_body m ext sq p) ks (h1, io1, ofe1)")
  from Cons.IH [OF dist dom' sepd' sepp' agree', of io1 ofe1] res
  have A: "\<forall>k\<in>set ks. \<forall>e. data p k = Some e \<longrightarrow>
            storage (h' e) = statefulAsync_scanned m p g k"
    and B: "\<forall>k\<in>set ks. \<forall>pv. prior p k = Some pv \<longrightarrow>
              storage (h' pv)
                = fst (SubtractSwap m (storage (g pv)) (storage (g (the (data p k)))))"
    and C: "\<forall>a. (\<forall>k\<in>set ks. data p k \<noteq> Some a \<and> prior p k \<noteq> Some a) \<longrightarrow> h' a = h1 a"
    and D: "elems (Points io') =
             elems (Points io1) @ concat (map (statefulAsync_emitted m ext sq p g) ks)"
    and E: "ofe' = (if OverflowAttributeSet ext \<in> set ks
                   then data p (OverflowAttributeSet ext) else ofe1)"
    by simp_all
  have e_free: "\<forall>k'\<in>set ks. data p k' \<noteq> Some e \<and> prior p k' \<noteq> Some e"
    using untouched by blast
  have p_free: "\<forall>k'\<in>set ks. data p k' \<noteq> Some pv \<and> prior p k' \<noteq> Some pv"
    if "prior p k = Some pv" for pv
    using untouched that by blast
  have A': "\<forall>k'\<in>set (k # ks). \<forall>e. data p k' = Some e \<longrightarrow>
            storage (h' e) = statefulAsync_scanned m p g k'"
  proof (intro ballI allI impI)
    fix k' a
    assume k': "k' \<in> set (k # ks)" and a: "data p k' = Some a"
    show "storage (h' a) = statefulAsync_scanned m p g k'"
    proof (cases "k' = k")
      case True
      with a e have "a = e"
        by simp
      moreover have "h' e = h1 e"
        using C e_free by simp
      ultimately show ?thesis
        using h1e True by simp
    next
      case False
      with k' have "k' \<in> set ks"
        by simp
      with A a show ?thesis
        by simp
    qed
  qed
  have B': "\<forall>k'\<in>set (k # ks). \<forall>pv. prior p k' = Some pv \<longrightarrow>
              storage (h' pv)
                = fst (SubtractSwap m (storage (g pv)) (storage (g (the (data p k')))))"
  proof (intro ballI allI impI)
    fix k' pv
    assume k': "k' \<in> set (k # ks)" and pv: "prior p k' = Some pv"
    show "storage (h' pv)
                = fst (SubtractSwap m (storage (g pv)) (storage (g (the (data p k')))))"
    proof (cases "k' = k")
      case True
      with pv have pk: "prior p k = Some pv"
        by simp
      have "h' pv = h1 pv"
        using C p_free [OF pk] by simp
      then show ?thesis
        using h1p pk True by simp
    next
      case False
      with k' have "k' \<in> set ks"
        by simp
      with B pv show ?thesis
        by simp
    qed
  qed
  have C': "\<forall>a. (\<forall>k'\<in>set (k # ks). data p k' \<noteq> Some a \<and> prior p k' \<noteq> Some a) \<longrightarrow> h' a = h a"
  proof (intro allI impI)
    fix a
    assume free: "\<forall>k'\<in>set (k # ks). data p k' \<noteq> Some a \<and> prior p k' \<noteq> Some a"
    then have "\<forall>k'\<in>set ks. data p k' \<noteq> Some a \<and> prior p k' \<noteq> Some a"
      by simp
    with C have "h' a = h1 a"
      by simp
    moreover from free e have "a \<noteq> e \<and> prior p k \<noteq> Some a"
      by auto
    with body(3) have "h1 a = h a"
      by simp
    ultimately show "h' a = h a"
      by simp
  qed
  have D': "elems (Points io') =
             elems (Points io) @ concat (map (statefulAsync_emitted m ext sq p g) (k # ks))"
    using D io1 by simp
  have E': "ofe' = (if OverflowAttributeSet ext \<in> set (k # ks)
                   then data p (OverflowAttributeSet ext) else ofe)"
    unfolding E body(5) using e by auto
  have "fold (statefulAsyncInstrument_Collect_body m ext sq p) (k # ks) (h, io, ofe)
          = (h', io', ofe')"
    by (simp add: step res)
  then show ?case
    using A' B' C' D' E' by (simp only: prod.case)
qed

lemma separate_holders_same_key:
  assumes "separate_holders dat" and "dat k = Some a" and "dat k' = Some a"
  shows "k' = k"
proof -
  have "k \<in> dom dat" and "k' \<in> dom dat" and "dat k' = dat k"
    using assms(2,3) by auto
  with assms(1) show ?thesis
    by (simp add: separate_holders_def inj_on_def)
qed

lemma statefulAsync_wf_facts:
  assumes "statefulAsync_wf fresh p"
  shows "data p k = Some a \<Longrightarrow> data p k' = Some a \<Longrightarrow> k' = k"
    and "prior p k = Some a \<Longrightarrow> prior p k' = Some a \<Longrightarrow> k' = k"
    and "data p k = Some a \<Longrightarrow> prior p k' \<noteq> Some a"
    and "data p k \<noteq> Some fresh"
    and "prior p k \<noteq> Some fresh"
proof -
  from assms have sd: "separate_holders (data p)" and sp: "separate_holders (prior p)"
    and disj: "ran (data p) \<inter> ran (prior p) = {}"
    and f1: "fresh \<notin> ran (data p)" and f2: "fresh \<notin> ran (prior p)"
    by (simp_all add: statefulAsync_wf_def)
  show "data p k = Some a \<Longrightarrow> data p k' = Some a \<Longrightarrow> k' = k"
    using sd by (rule separate_holders_same_key)
  show "prior p k = Some a \<Longrightarrow> prior p k' = Some a \<Longrightarrow> k' = k"
    using sp by (rule separate_holders_same_key)
  show "data p k = Some a \<Longrightarrow> prior p k' \<noteq> Some a"
  proof
    assume "data p k = Some a" and "prior p k' = Some a"
    then have "a \<in> ran (data p)" and "a \<in> ran (prior p)"
      by (auto simp: ran_def)
    with disj show False
      by auto
  qed
  show "data p k \<noteq> Some fresh"
    using f1 by (auto simp: ran_def)
  show "prior p k \<noteq> Some fresh"
    using f2 by (auto simp: ran_def)
qed

lemma statefulAsync_emitted_Attributes:
  assumes "x \<in> set (statefulAsync_emitted m ext sq p h k)"
  shows "Attributes x = k"
  using assms
  by (cases "prior p k") (auto simp: statefulAsync_emitted_def Let_def split: if_splits)

lemma filter_key_concat:
  assumes "distinct ks" and "\<And>k' x. x \<in> set (f k') \<Longrightarrow> key x = k'"
  shows "filter (\<lambda>x. key x = k) (concat (map f ks)) = (if k \<in> set ks then f k else [])"
  using assms(1)
proof (induction ks)
  case Nil
  show ?case by simp
next
  case (Cons a ks)
  have own: "filter (\<lambda>x. key x = a) (f a) = f a"
    using assms(2) by (simp add: filter_id_conv)
  have other: "filter (\<lambda>x. key x = k) (f a) = []" if "k \<noteq> a"
    using assms(2) that by (auto simp: filter_empty_conv)
  have IH: "filter (\<lambda>x. key x = k) (concat (map f ks)) = (if k \<in> set ks then f k else [])"
    and a: "a \<notin> set ks"
    using Cons by simp_all
  show ?case
  proof (cases "k = a")
    case True
    with a have "k \<notin> set ks"
      by simp
    with IH have "filter (\<lambda>x. key x = k) (concat (map f ks)) = []"
      by simp
    with True show ?thesis
      by (simp add: own)
  next
    case False
    then show ?thesis
      by (simp add: IH other)
  qed
qed

lemma statefulAsync_Collect_result:
  assumes ro: "range_order ks (data p)"
    and wf: "statefulAsync_wf fresh p"
    and run: "statefulAsyncInstrument_Collect m ext ks fresh p h sq output = (p', h', output')"
  shows "prior p' = data p"
    and "data p' = (case data p (OverflowAttributeSet ext) of
                      None \<Rightarrow> Map.empty
                    | Some e \<Rightarrow> [OverflowAttributeSet ext \<mapsto> fresh])"
    and "butlast output' = output"
    and "elems (Points (last output')) = concat (map (statefulAsync_emitted m ext sq p h) ks)"
    and "\<And>k e. data p k = Some e \<Longrightarrow> storage (h' e) = statefulAsync_scanned m p h k"
    and "\<And>k pv e. prior p k = Some pv \<Longrightarrow> data p k = Some e \<Longrightarrow>
           storage (h' pv) = fst (SubtractSwap m (storage (h pv)) (storage (h e)))"
    and "\<And>k pv. prior p k = Some pv \<Longrightarrow> data p k = None \<Longrightarrow> h' pv = h pv"
    and "\<And>e. data p (OverflowAttributeSet ext) = Some e \<Longrightarrow>
           storage (h' fresh) = Copy m (storage (h' e)) (zeroStorage ext)"
proof -
  note ks = range_order_facts [OF ro]
  note wff = statefulAsync_wf_facts [OF wf]
  have sepd: "\<forall>k\<in>set ks. \<forall>k'\<in>set ks. \<forall>a. data p k = Some a \<longrightarrow>
                 prior p k' \<noteq> Some a \<and> (k' \<noteq> k \<longrightarrow> data p k' \<noteq> Some a)"
  proof (intro ballI allI impI conjI)
    fix ka kb a
    assume d: "data p ka = Some a"
    show "prior p kb \<noteq> Some a"
      using d by (rule wff(3))
    assume ne: "kb \<noteq> ka"
    show "data p kb \<noteq> Some a"
    proof
      assume "data p kb = Some a"
      with d have "kb = ka"
        by (rule wff(1))
      with ne show False
        by simp
    qed
  qed
  have sepp: "\<forall>k\<in>set ks. \<forall>k'\<in>set ks. \<forall>a. prior p k = Some a \<longrightarrow>
                 (k' \<noteq> k \<longrightarrow> prior p k' \<noteq> Some a)"
  proof (intro ballI allI impI)
    fix ka kb a
    assume pr: "prior p ka = Some a" and ne: "kb \<noteq> ka"
    show "prior p kb \<noteq> Some a"
    proof
      assume "prior p kb = Some a"
      with pr have "kb = ka"
        by (rule wff(2))
      with ne show False
        by simp
    qed
  qed
  have agree: "\<forall>k\<in>set ks. \<forall>a. data p k = Some a \<or> prior p k = Some a \<longrightarrow> h a = h a"
    by simp
  obtain h1 io1 ofe1 where fold_eq:
    "fold (statefulAsyncInstrument_Collect_body m ext sq p) ks
       (h, appendInstrument, None) = (h1, io1, ofe1)"
    by (cases "fold (statefulAsyncInstrument_Collect_body m ext sq p) ks
       (h, appendInstrument, None)")
  from statefulAsync_fold [OF ks(1) ks(3) sepd sepp agree, where m = m and ext = ext
      and sq = sq and io = appendInstrument and ofe = None] fold_eq
  have A: "\<forall>k\<in>set ks. \<forall>e. data p k = Some e \<longrightarrow>
            storage (h1 e) = statefulAsync_scanned m p h k"
    and B: "\<forall>k\<in>set ks. \<forall>pv. prior p k = Some pv \<longrightarrow>
              storage (h1 pv)
                = fst (SubtractSwap m (storage (h pv)) (storage (h (the (data p k)))))"
    and C: "\<forall>a. (\<forall>k\<in>set ks. data p k \<noteq> Some a \<and> prior p k \<noteq> Some a) \<longrightarrow> h1 a = h a"
    and D: "elems (Points io1) =
             elems (Points (appendInstrument :: ('a, 'b) Instrument))
               @ concat (map (statefulAsync_emitted m ext sq p h) ks)"
    and E: "ofe1 = (if OverflowAttributeSet ext \<in> set ks
                   then data p (OverflowAttributeSet ext) else None)"
    by simp_all
  have ofe: "ofe1 = data p (OverflowAttributeSet ext)"
    unfolding E using ks(2) by auto
  have res: "(p', h', output') =
      (case data p (OverflowAttributeSet ext) of
         None \<Rightarrow> (p\<lparr>prior := data p, data := Map.empty\<rparr>, h1, output @ [io1])
       | Some o_entry \<Rightarrow>
           (p\<lparr>prior := data p, data := [OverflowAttributeSet ext \<mapsto> fresh]\<rparr>,
            h1(fresh := \<lparr>storage = Copy m (storage (h1 o_entry)) (zeroStorage ext),
                         auxiliary = notUsed\<rparr>),
            output @ [io1]))"
    using run
    by (simp add: statefulAsyncInstrument_Collect_def fold_eq ofe Let_def split: option.splits)
  show "prior p' = data p"
    using res by (cases "data p (OverflowAttributeSet ext)") simp_all
  show "data p' = (case data p (OverflowAttributeSet ext) of
                      None \<Rightarrow> Map.empty
                    | Some e \<Rightarrow> [OverflowAttributeSet ext \<mapsto> fresh])"
    using res by (cases "data p (OverflowAttributeSet ext)") simp_all
  have out: "output' = output @ [io1]"
    using res by (cases "data p (OverflowAttributeSet ext)") simp_all
  show "butlast output' = output"
    by (simp add: out)
  show "elems (Points (last output')) = concat (map (statefulAsync_emitted m ext sq p h) ks)"
    by (simp add: out D appendInstrument_def)
  have h'_old: "h' a = h1 a" if "a \<noteq> fresh" for a
    using res that by (cases "data p (OverflowAttributeSet ext)") simp_all
  show e_scan: "storage (h' e) = statefulAsync_scanned m p h k" if "data p k = Some e" for k e
  proof -
    have "e \<noteq> fresh"
      using that wff(4) [of k] by auto
    then have "h' e = h1 e"
      by (rule h'_old)
    moreover have "k \<in> set ks"
      using that ks(2) by auto
    ultimately show ?thesis
      using A that by simp
  qed
  show "storage (h' pv) = fst (SubtractSwap m (storage (h pv)) (storage (h e)))"
    if "prior p k = Some pv" and "data p k = Some e" for k pv e
  proof -
    have "pv \<noteq> fresh"
      using that(1) wff(5) [of k] by auto
    then have "h' pv = h1 pv"
      by (rule h'_old)
    moreover have "k \<in> set ks"
      using that(2) ks(2) by auto
    ultimately show ?thesis
      using B that by simp
  qed
  show "h' pv = h pv" if pr: "prior p k = Some pv" and no: "data p k = None" for k pv
  proof -
    have "pv \<noteq> fresh"
      using pr wff(5) [of k] by auto
    then have "h' pv = h1 pv"
      by (rule h'_old)
    moreover have "\<forall>k'\<in>set ks. data p k' \<noteq> Some pv \<and> prior p k' \<noteq> Some pv"
    proof (intro ballI conjI)
      fix k'
      assume k': "k' \<in> set ks"
      show "data p k' \<noteq> Some pv"
      proof
        assume "data p k' = Some pv"
        then have "prior p k \<noteq> Some pv"
          by (rule wff(3))
        with pr show False
          by simp
      qed
      show "prior p k' \<noteq> Some pv"
      proof
        assume "prior p k' = Some pv"
        with pr have "k' = k"
          by (rule wff(2))
        with k' ks(2) no show False
          by auto
      qed
    qed
    with C have "h1 pv = h pv"
      by simp
    ultimately show ?thesis
      by simp
  qed
  show "storage (h' fresh) = Copy m (storage (h' e)) (zeroStorage ext)"
    if ov: "data p (OverflowAttributeSet ext) = Some e" for e
  proof -
    have "e \<noteq> fresh"
      using ov wff(4) [of "OverflowAttributeSet ext"] by auto
    then have "h' e = h1 e"
      by (rule h'_old)
    moreover have "h' fresh = \<lparr>storage = Copy m (storage (h1 e)) (zeroStorage ext),
                         auxiliary = notUsed\<rparr>"
      using res ov by simp
    ultimately show ?thesis
      by simp
  qed
qed

lemma statefulAsync_Collect_points_of:
  assumes ro: "range_order ks (data p)"
    and wf: "statefulAsync_wf fresh p"
    and run: "statefulAsyncInstrument_Collect m ext ks fresh p h sq output = (p', h', output')"
  shows "filter (\<lambda>pt. Attributes pt = k) (elems (Points (last output')))
           = (if k \<in> dom (data p) then statefulAsync_emitted m ext sq p h k else [])"
proof -
  note ks = range_order_facts [OF ro]
  note res = statefulAsync_Collect_result [OF ro wf run]
  show ?thesis
    unfolding res(4) ks(2) [symmetric]
    by (rule filter_key_concat [OF ks(1)]) (rule statefulAsync_emitted_Attributes)
qed

text \<open>
  The well-formedness of the two maps is an invariant: \<open>Collect\<close> re-establishes it for
  any later allocation address.
\<close>

lemma statefulAsync_wf_preserved:
  assumes ro: "range_order ks (data p)"
    and wf: "statefulAsync_wf fresh p"
    and run: "statefulAsyncInstrument_Collect m ext ks fresh p h sq output = (p', h', output')"
    and next_fresh: "next_fresh \<noteq> fresh" "next_fresh \<notin> ran (data p)"
  shows "statefulAsync_wf next_fresh p'"
proof -
  note res = statefulAsync_Collect_result [OF ro wf run]
  from wf have sd: "separate_holders (data p)" and f: "fresh \<notin> ran (data p)"
    by (simp_all add: statefulAsync_wf_def)
  have ran_new: "ran (data p') \<subseteq> {fresh}"
    unfolding res(2) by (cases "data p (OverflowAttributeSet ext)") simp_all
  have sep_new: "separate_holders (data p')"
    unfolding res(2)
    by (cases "data p (OverflowAttributeSet ext)") (simp_all add: separate_holders_def)
  have "ran (data p') \<inter> ran (prior p') = {}"
    using ran_new f by (auto simp: res(1))
  moreover have "next_fresh \<notin> ran (data p')"
    using ran_new next_fresh(1) by auto
  moreover have "next_fresh \<notin> ran (prior p')"
    using next_fresh(2) by (simp add: res(1))
  moreover have "separate_holders (prior p')"
    using sd by (simp add: res(1))
  ultimately show ?thesis
    using sep_new by (simp add: statefulAsync_wf_def)
qed

lemma sum_scanned:
  assumes "data p k = Some e"
  shows "statefulAsync_scanned sum_Methods p h k = storage (h e)"
  using assms by (cases "prior p k") (simp_all add: statefulAsync_scanned_def sum_Methods_def)

lemma sum_emitted_found:
  assumes "data p k = Some e" and "prior p k = Some pv"
  shows "statefulAsync_emitted sum_Methods ext sq p h k =
    (if storage (h e) = storage (h pv) then []
     else [\<lparr>Attributes = k, Aggregation = storage (h e) - storage (h pv),
            Temporality = DeltaTemporality, PtStart = Last sq, PtEnd = Now sq\<rparr>])"
  using assms by (simp add: statefulAsync_emitted_def sum_Methods_def)

lemma statefulAsync_two_cycles:
  assumes roa: "range_order ksa (data pa)"
    and wfa: "statefulAsync_wf fresha pa"
    and runa: "statefulAsyncInstrument_Collect sum_Methods exts ksa fresha pa ha sqa outa
                 = (pa', ha', outa')"
    and ja: "data pa j = Some ea"
    and between: "prior pb = prior pa'" "storage (hb ea) = storage (ha' ea)"
    and rob: "range_order ksb (data pb)"
    and wfb: "statefulAsync_wf freshb pb"
    and jb: "data pb j = Some eb"
    and runb: "statefulAsyncInstrument_Collect sum_Methods exts ksb freshb pb hb sqb outb
                 = (pb', hb', outb')"
  shows "filter (\<lambda>pt. Attributes pt = j) (elems (Points (last outb')))
           = (if storage (hb eb) = storage (ha ea) then []
              else [\<lparr>Attributes = j, Aggregation = storage (hb eb) - storage (ha ea),
                     Temporality = DeltaTemporality, PtStart = Last sqb, PtEnd = Now sqb\<rparr>])"
proof -
  note resa = statefulAsync_Collect_result [OF roa wfa runa]
  have "prior pa' j = Some ea"
    using resa(1) ja by simp
  then have pr: "prior pb j = Some ea"
    using between(1) by simp
  have "storage (ha' ea) = storage (ha ea)"
    using resa(5) [OF ja] sum_scanned [OF ja] by simp
  then have c1: "storage (hb ea) = storage (ha ea)"
    using between(2) by simp
  have "j \<in> dom (data pb)"
    using jb by auto
  then have "filter (\<lambda>pt. Attributes pt = j) (elems (Points (last outb')))
      = statefulAsync_emitted sum_Methods exts sqb pb hb j"
    using statefulAsync_Collect_points_of [OF rob wfb runb, of j] by simp
  then show ?thesis
    by (simp add: sum_emitted_found [OF jb pr] c1)
qed

text \<open>
  Claim C1. \<open>Collect\<close> of the stateful asynchronous instrument, for every attribute set
  \<open>k\<close> of the current map with holder \<open>e\<close>: if \<open>k\<close> is found in the prior map, with
  holder \<open>pv\<close>, the difference is computed in place by \<open>SubtractSwap\<close> (the storage of
  \<open>pv\<close> holds it afterwards), no point is emitted for \<open>k\<close> when \<open>HasChange\<close> of the
  difference is false, and otherwise the one point for \<open>k\<close> is a copy of the difference;
  if \<open>k\<close> is not found, the one point for \<open>k\<close> is a copy of the current value. The
  current entry becomes the prior entry of \<open>k\<close>. In particular, over the sum algebra:
  when a series \<open>j\<close> has the cumulative value \<open>c1\<close> in one cycle and \<open>c2\<close> in the next
  (nothing but \<open>Collect\<close> writes the prior map and its holders between the two), the second
  \<open>Collect\<close> reports the delta \<open>c2 - c1\<close> for \<open>j\<close>, and no point when \<open>c1 = c2\<close>.
\<close>

theorem statefulAsync_Collect_delta:
  assumes ro: "range_order ks (data p)"
    and wf: "statefulAsync_wf fresh p"
    and run: "statefulAsyncInstrument_Collect m ext ks fresh p h sq output = (p', h', output')"
    and k: "data p k = Some e"
    and roa: "range_order ksa (data pa)"
    and wfa: "statefulAsync_wf fresha pa"
    and runa: "statefulAsyncInstrument_Collect sum_Methods exts ksa fresha pa ha sqa outa
                 = (pa', ha', outa')"
    and ja: "data pa j = Some ea"
    and between: "prior pb = prior pa'" "storage (hb ea) = storage (ha' ea)"
    and rob: "range_order ksb (data pb)"
    and wfb: "statefulAsync_wf freshb pb"
    and jb: "data pb j = Some eb"
    and runb: "statefulAsyncInstrument_Collect sum_Methods exts ksb freshb pb hb sqb outb
                 = (pb', hb', outb')"
  shows "(\<forall>pv. prior p k = Some pv \<longrightarrow>
            storage (h' pv) = fst (SubtractSwap m (storage (h pv)) (storage (h e)))
          \<and> filter (\<lambda>pt. Attributes pt = k) (elems (Points (last output')))
              = (if HasChange m (fst (SubtractSwap m (storage (h pv)) (storage (h e))))
                 then [\<lparr>Attributes = k,
                        Aggregation = Copy m (fst (SubtractSwap m (storage (h pv)) (storage (h e))))
                                        (newStorage ext),
                        Temporality = DeltaTemporality, PtStart = Last sq, PtEnd = Now sq\<rparr>]
                 else []))
    \<and> (prior p k = None \<longrightarrow>
          filter (\<lambda>pt. Attributes pt = k) (elems (Points (last output')))
            = [\<lparr>Attributes = k, Aggregation = Copy m (storage (h e)) (newStorage ext),
                Temporality = DeltaTemporality, PtStart = Last sq, PtEnd = Now sq\<rparr>])
    \<and> prior p' k = Some e
    \<and> filter (\<lambda>pt. Attributes pt = j) (elems (Points (last outb')))
        = (if storage (hb eb) = storage (ha ea) then []
           else [\<lparr>Attributes = j, Aggregation = storage (hb eb) - storage (ha ea),
                  Temporality = DeltaTemporality, PtStart = Last sqb, PtEnd = Now sqb\<rparr>])"
proof -
  note res = statefulAsync_Collect_result [OF ro wf run]
  have k_in: "k \<in> dom (data p)"
    using k by auto
  have pts: "filter (\<lambda>pt. Attributes pt = k) (elems (Points (last output')))
      = statefulAsync_emitted m ext sq p h k"
    using statefulAsync_Collect_points_of [OF ro wf run, of k] k_in by simp
  have found: "storage (h' pv) = fst (SubtractSwap m (storage (h pv)) (storage (h e)))
          \<and> filter (\<lambda>pt. Attributes pt = k) (elems (Points (last output')))
              = (if HasChange m (fst (SubtractSwap m (storage (h pv)) (storage (h e))))
                 then [\<lparr>Attributes = k,
                        Aggregation = Copy m (fst (SubtractSwap m (storage (h pv)) (storage (h e))))
                                        (newStorage ext),
                        Temporality = DeltaTemporality, PtStart = Last sq, PtEnd = Now sq\<rparr>]
                 else [])"
    if pr: "prior p k = Some pv" for pv
    using res(6) [OF pr k] pr k by (simp add: pts statefulAsync_emitted_def)
  have new: "filter (\<lambda>pt. Attributes pt = k) (elems (Points (last output')))
            = [\<lparr>Attributes = k, Aggregation = Copy m (storage (h e)) (newStorage ext),
                Temporality = DeltaTemporality, PtStart = Last sq, PtEnd = Now sq\<rparr>]"
    if "prior p k = None"
    using that k by (simp add: pts statefulAsync_emitted_def)
  have rot: "prior p' k = Some e"
    using res(1) k by simp
  note two = statefulAsync_two_cycles [OF roa wfa runa ja between rob wfb jb runb]
  from found new rot two show ?thesis
    by blast
qed

text \<open>
  Claim C2. When the overflow key is in the current map, then after \<open>Collect\<close> of the
  stateful asynchronous instrument the new current map has the overflow key and no
  other, bound to the newly allocated holder, whose storage is a copy (into a zero
  storage) of the scanned overflow entry's storage after the scan; the scanned map is the
  new prior map. With an algebra whose \<open>SubtractSwap\<close> leaves its second operand and whose
  \<open>Copy\<close> yields the source, the carried value is the overflow entry's cumulative value
  from before the collection.
\<close>

theorem statefulAsync_Collect_overflow:
  assumes ro: "range_order ks (data p)"
    and wf: "statefulAsync_wf fresh p"
    and run: "statefulAsyncInstrument_Collect m ext ks fresh p h sq output = (p', h', output')"
    and ov: "data p (OverflowAttributeSet ext) = Some e"
  shows "data p' = [OverflowAttributeSet ext \<mapsto> fresh]
    \<and> dom (data p') = {OverflowAttributeSet ext}
    \<and> prior p' = data p
    \<and> storage (h' e) =
         (case prior p (OverflowAttributeSet ext) of
            Some pv \<Rightarrow> snd (SubtractSwap m (storage (h pv)) (storage (h e)))
          | None \<Rightarrow> storage (h e))
    \<and> storage (h' fresh) = Copy m (storage (h' e)) (zeroStorage ext)
    \<and> ((\<forall>a b. snd (SubtractSwap m a b) = b) \<and> (\<forall>s d. Copy m s d = s)
         \<longrightarrow> storage (h' fresh) = storage (h e))"
proof -
  note res = statefulAsync_Collect_result [OF ro wf run]
  have d: "data p' = [OverflowAttributeSet ext \<mapsto> fresh]"
    using res(2) ov by simp
  then have dm: "dom (data p') = {OverflowAttributeSet ext}"
    by simp
  have scan: "storage (h' e) =
         (case prior p (OverflowAttributeSet ext) of
            Some pv \<Rightarrow> snd (SubtractSwap m (storage (h pv)) (storage (h e)))
          | None \<Rightarrow> storage (h e))"
    using res(5) [OF ov] ov
    by (cases "prior p (OverflowAttributeSet ext)") (simp_all add: statefulAsync_scanned_def)
  note cp = res(8) [OF ov]
  have keep: "storage (h' fresh) = storage (h e)"
    if "(\<forall>a b. snd (SubtractSwap m a b) = b) \<and> (\<forall>s d. Copy m s d = s)"
  proof -
    from that have "storage (h' e) = storage (h e)"
      unfolding scan by (cases "prior p (OverflowAttributeSet ext)") simp_all
    with that cp show ?thesis
      by simp
  qed
  from d dm res(1) scan cp keep show ?thesis
    by blast
qed

text \<open>
  Claim C9. An attribute set \<open>k\<close> that is in the prior map and not in the current map:
  \<open>Collect\<close> of the stateful asynchronous instrument emits no point for \<open>k\<close>, leaves the
  prior holder of \<open>k\<close> as it was, and \<open>k\<close> is not in the new prior map. When \<open>k\<close> is
  in the current map of a later cycle (the prior map being the one this collection
  left), that \<open>Collect\<close> emits for \<open>k\<close> one point that is a copy of its cumulative value,
  in full.
\<close>

theorem statefulAsync_Collect_drops_absent:
  assumes ro: "range_order ks (data p)"
    and wf: "statefulAsync_wf fresh p"
    and run: "statefulAsyncInstrument_Collect m ext ks fresh p h sq output = (p', h', output')"
    and pr: "prior p k = Some pv"
    and absent: "data p k = None"
    and later: "prior pb = prior p'"
    and rob: "range_order ksb (data pb)"
    and wfb: "statefulAsync_wf freshb pb"
    and reappears: "data pb k = Some eb"
    and runb: "statefulAsyncInstrument_Collect m ext ksb freshb pb hb sqb outb = (pb', hb', outb')"
  shows "filter (\<lambda>pt. Attributes pt = k) (elems (Points (last output'))) = []
    \<and> prior p' k = None
    \<and> h' pv = h pv
    \<and> filter (\<lambda>pt. Attributes pt = k) (elems (Points (last outb')))
        = [\<lparr>Attributes = k, Aggregation = Copy m (storage (hb eb)) (newStorage ext),
             Temporality = DeltaTemporality, PtStart = Last sqb, PtEnd = Now sqb\<rparr>]"
proof -
  note res = statefulAsync_Collect_result [OF ro wf run]
  have "k \<notin> dom (data p)"
    using absent by auto
  then have none: "filter (\<lambda>pt. Attributes pt = k) (elems (Points (last output'))) = []"
    using statefulAsync_Collect_points_of [OF ro wf run, of k] by simp
  have gone: "prior p' k = None"
    using res(1) absent by simp
  note same = res(7) [OF pr absent]
  have prb: "prior pb k = None"
    using later gone by simp
  have "k \<in> dom (data pb)"
    using reappears by auto
  then have "filter (\<lambda>pt. Attributes pt = k) (elems (Points (last outb')))
      = statefulAsync_emitted m ext sqb pb hb k"
    using statefulAsync_Collect_points_of [OF rob wfb runb, of k] by simp
  then have full: "filter (\<lambda>pt. Attributes pt = k) (elems (Points (last outb')))
        = [\<lparr>Attributes = k, Aggregation = Copy m (storage (hb eb)) (newStorage ext),
             Temporality = DeltaTemporality, PtStart = Last sqb, PtEnd = Now sqb\<rparr>]"
    using prb reappears by (simp add: statefulAsync_emitted_def)
  from none gone same full show ?thesis
    by blast
qed

lemma example_first_cycle_wf:
  "range_order [''a''] (data example_first_cycle)"
  "statefulAsync_wf 30 example_first_cycle"
  "data example_first_cycle ''a'' = Some 10"
  by (simp_all add: range_order_def statefulAsync_wf_def separate_holders_def
      example_first_cycle_def)

lemma example_second_cycle_wf:
  "range_order [''a''] (data example_second_cycle)"
  "statefulAsync_wf 31 example_second_cycle"
  "data example_second_cycle ''a'' = Some 11"
  "prior example_second_cycle ''a'' = Some 10"
  by (simp_all add: range_order_def statefulAsync_wf_def separate_holders_def
      example_second_cycle_def)

theorem statefulAsync_Collect_delta_witness:
  "range_order [''a''] (data example_first_cycle)
   \<and> statefulAsync_wf 30 example_first_cycle
   \<and> data example_first_cycle ''a'' = Some 10
   \<and> prior example_second_cycle
       = prior (fst (statefulAsyncInstrument_Collect sum_Methods sum_externals [''a''] 30
                       example_first_cycle example_first_store example_sequence []))
   \<and> storage (example_second_store 10)
       = storage (fst (snd (statefulAsyncInstrument_Collect sum_Methods sum_externals [''a''] 30
                       example_first_cycle example_first_store example_sequence [])) 10)
   \<and> range_order [''a''] (data example_second_cycle)
   \<and> statefulAsync_wf 31 example_second_cycle
   \<and> data example_second_cycle ''a'' = Some 11
   \<and> filter (\<lambda>pt. Attributes pt = ''a'')
        (elems (Points (last (snd (snd
          (statefulAsyncInstrument_Collect sum_Methods sum_externals [''a''] 31
             example_second_cycle example_second_store example_sequence []))))))
       = [\<lparr>Attributes = ''a'', Aggregation = 3, Temporality = DeltaTemporality,
            PtStart = 20, PtEnd = 30\<rparr>]"
proof -
  let ?first = "statefulAsyncInstrument_Collect sum_Methods sum_externals [''a''] 30
                  example_first_cycle example_first_store example_sequence []"
  let ?second = "statefulAsyncInstrument_Collect sum_Methods sum_externals [''a''] 31
                   example_second_cycle example_second_store example_sequence []"
  have run1: "?first = (fst ?first, fst (snd ?first), snd (snd ?first))"
    by simp
  have run2: "?second = (fst ?second, fst (snd ?second), snd (snd ?second))"
    by simp
  note res1 = statefulAsync_Collect_result
    [OF example_first_cycle_wf(1) example_first_cycle_wf(2) run1]
  have b1: "prior example_second_cycle = prior (fst ?first)"
    unfolding res1(1) by (simp add: example_second_cycle_def example_first_cycle_def)
  have "storage (fst (snd ?first) 10) = storage (example_first_store 10)"
    using res1(5) [OF example_first_cycle_wf(3)] sum_scanned [OF example_first_cycle_wf(3)]
    by simp
  then have b2: "storage (example_second_store 10) = storage (fst (snd ?first) 10)"
    by (simp add: example_first_store_def example_second_store_def)
  note claim = statefulAsync_Collect_delta
    [OF example_second_cycle_wf(1) example_second_cycle_wf(2) run2 example_second_cycle_wf(3)
      example_first_cycle_wf(1) example_first_cycle_wf(2) run1 example_first_cycle_wf(3)
      b1 b2
      example_second_cycle_wf(1) example_second_cycle_wf(2) example_second_cycle_wf(3) run2]
  note two = claim [THEN conjunct2, THEN conjunct2, THEN conjunct2]
  have "filter (\<lambda>pt. Attributes pt = ''a'') (elems (Points (last (snd (snd ?second)))))
       = [\<lparr>Attributes = ''a'', Aggregation = 3, Temporality = DeltaTemporality,
            PtStart = 20, PtEnd = 30\<rparr>]"
    unfolding two
    by (simp add: example_first_store_def example_second_store_def example_sequence_def)
  with example_first_cycle_wf example_second_cycle_wf(1,2,3) b1 b2 show ?thesis
    by blast
qed

lemma example_overflow_cycle_wf:
  "range_order [''a'', ''otel.metric.overflow''] (data example_overflow_cycle)"
  "statefulAsync_wf 30 example_overflow_cycle"
  "data example_overflow_cycle (OverflowAttributeSet sum_externals) = Some 10"
proof -
  show "range_order [''a'', ''otel.metric.overflow''] (data example_overflow_cycle)"
    by (auto simp: range_order_def example_overflow_cycle_def)
  have "separate_holders (data example_overflow_cycle)"
    by (auto simp: separate_holders_def example_overflow_cycle_def inj_on_def dom_def
        split: if_splits)
  moreover have "separate_holders (prior example_overflow_cycle)"
    by (simp add: separate_holders_def example_overflow_cycle_def)
  moreover have "ran (data example_overflow_cycle) = {10, 11}"
    and "ran (prior example_overflow_cycle) = {12}"
    by (auto simp: example_overflow_cycle_def ran_def split: if_splits)
  ultimately show "statefulAsync_wf 30 example_overflow_cycle"
    by (simp add: statefulAsync_wf_def)
  show "data example_overflow_cycle (OverflowAttributeSet sum_externals) = Some 10"
    by (simp add: example_overflow_cycle_def sum_externals_def)
qed

theorem statefulAsync_Collect_overflow_witness:
  "range_order [''a'', ''otel.metric.overflow''] (data example_overflow_cycle)
   \<and> statefulAsync_wf 30 example_overflow_cycle
   \<and> data example_overflow_cycle (OverflowAttributeSet sum_externals) = Some 10
   \<and> data (fst (statefulAsyncInstrument_Collect sum_Methods sum_externals
                   [''a'', ''otel.metric.overflow''] 30 example_overflow_cycle
                   example_overflow_store example_sequence [])) ''otel.metric.overflow'' = Some 30
   \<and> data (fst (statefulAsyncInstrument_Collect sum_Methods sum_externals
                   [''a'', ''otel.metric.overflow''] 30 example_overflow_cycle
                   example_overflow_store example_sequence [])) ''a'' = None
   \<and> storage (fst (snd (statefulAsyncInstrument_Collect sum_Methods sum_externals
                   [''a'', ''otel.metric.overflow''] 30 example_overflow_cycle
                   example_overflow_store example_sequence [])) 30) = 9"
proof -
  let ?run = "statefulAsyncInstrument_Collect sum_Methods sum_externals
                   [''a'', ''otel.metric.overflow''] 30 example_overflow_cycle
                   example_overflow_store example_sequence []"
  have run: "?run = (fst ?run, fst (snd ?run), snd (snd ?run))"
    by simp
  note claim = statefulAsync_Collect_overflow
    [OF example_overflow_cycle_wf(1) example_overflow_cycle_wf(2) run example_overflow_cycle_wf(3)]
  note new_data = claim [THEN conjunct1]
  note kept = claim [THEN conjunct2, THEN conjunct2, THEN conjunct2, THEN conjunct2,
    THEN conjunct2, rule_format]
  have contract: "(\<forall>a b. snd (SubtractSwap (sum_Methods :: (64 word, 64 word, unit) Methods) a b) = b)
      \<and> (\<forall>s d. Copy (sum_Methods :: (64 word, 64 word, unit) Methods) s d = s)"
    by (simp add: sum_Methods_def)
  have 1: "data (fst ?run) ''otel.metric.overflow'' = Some 30"
    and 2: "data (fst ?run) ''a'' = None"
    unfolding new_data by (simp_all add: sum_externals_def)
  have 3: "storage (fst (snd ?run) 30) = 9"
    unfolding kept [OF contract] by (simp add: example_overflow_store_def)
  from example_overflow_cycle_wf 1 2 3 show ?thesis
    by blast
qed

lemma example_drop_cycle_wf:
  "range_order [''b''] (data example_drop_cycle)"
  "statefulAsync_wf 30 example_drop_cycle"
  "prior example_drop_cycle ''a'' = Some 10"
  "data example_drop_cycle ''a'' = None"
  by (simp_all add: range_order_def statefulAsync_wf_def separate_holders_def
      example_drop_cycle_def)

lemma example_return_cycle_wf:
  "range_order [''a''] (data example_return_cycle)"
  "statefulAsync_wf 31 example_return_cycle"
  "data example_return_cycle ''a'' = Some 13"
  by (simp_all add: range_order_def statefulAsync_wf_def separate_holders_def
      example_return_cycle_def)

theorem statefulAsync_Collect_drops_absent_witness:
  "range_order [''b''] (data example_drop_cycle)
   \<and> statefulAsync_wf 30 example_drop_cycle
   \<and> prior example_drop_cycle ''a'' = Some 10
   \<and> data example_drop_cycle ''a'' = None
   \<and> prior example_return_cycle
       = prior (fst (statefulAsyncInstrument_Collect sum_Methods sum_externals [''b''] 30
                       example_drop_cycle example_drop_store example_sequence []))
   \<and> range_order [''a''] (data example_return_cycle)
   \<and> statefulAsync_wf 31 example_return_cycle
   \<and> data example_return_cycle ''a'' = Some 13
   \<and> filter (\<lambda>pt. Attributes pt = ''a'')
        (elems (Points (last (snd (snd
          (statefulAsyncInstrument_Collect sum_Methods sum_externals [''b''] 30
             example_drop_cycle example_drop_store example_sequence []))))))
       = []
   \<and> filter (\<lambda>pt. Attributes pt = ''a'')
        (elems (Points (last (snd (snd
          (statefulAsyncInstrument_Collect sum_Methods sum_externals [''a''] 31
             example_return_cycle example_return_store example_sequence []))))))
       = [\<lparr>Attributes = ''a'', Aggregation = 7, Temporality = DeltaTemporality,
            PtStart = 20, PtEnd = 30\<rparr>]"
proof -
  let ?first = "statefulAsyncInstrument_Collect sum_Methods sum_externals [''b''] 30
                  example_drop_cycle example_drop_store example_sequence []"
  let ?second = "statefulAsyncInstrument_Collect sum_Methods sum_externals [''a''] 31
                   example_return_cycle example_return_store example_sequence []"
  have run1: "?first = (fst ?first, fst (snd ?first), snd (snd ?first))"
    by simp
  have run2: "?second = (fst ?second, fst (snd ?second), snd (snd ?second))"
    by simp
  note res1 = statefulAsync_Collect_result
    [OF example_drop_cycle_wf(1) example_drop_cycle_wf(2) run1]
  have later: "prior example_return_cycle = prior (fst ?first)"
    unfolding res1(1) by (simp add: example_return_cycle_def example_drop_cycle_def)
  note claim = statefulAsync_Collect_drops_absent
    [OF example_drop_cycle_wf(1) example_drop_cycle_wf(2) run1 example_drop_cycle_wf(3)
      example_drop_cycle_wf(4) later example_return_cycle_wf(1) example_return_cycle_wf(2)
      example_return_cycle_wf(3) run2]
  note none = claim [THEN conjunct1]
  note full = claim [THEN conjunct2, THEN conjunct2, THEN conjunct2]
  have 2: "filter (\<lambda>pt. Attributes pt = ''a'') (elems (Points (last (snd (snd ?second)))))
       = [\<lparr>Attributes = ''a'', Aggregation = 7, Temporality = DeltaTemporality,
            PtStart = 20, PtEnd = 30\<rparr>]"
    unfolding full
    by (simp add: example_return_store_def example_sequence_def sum_Methods_def)
  from example_drop_cycle_wf example_return_cycle_wf later none 2 show ?thesis
    by blast
qed

end
